theory Spec2Isabelle
  imports Complex_Main "HOL-Library.Word" "HOL-Library.AList" "HOL-Library.Multiset"
begin

unbundle bit_operations_syntax

section \<open>Go values used by the collectors\<close>

subsection \<open>Outcomes of a Go call\<close>

text \<open>
  A Go function of this package either returns normally, returns a non-nil \<open>error\<close>, or
  panics (index out of range, slice length out of range).  The three outcomes are kept
  apart: a panic is not an error return.
\<close>

text \<open>
  The fields of \<open>unix.PerfEventAttr\<close> that the collector writes; the other fields of the
  kernel structure are never touched by this package.
\<close>

record PerfEventAttr =
  Type :: "32 word"
  Size :: "32 word"
  Config :: "64 word"
  Sample_type :: "64 word"
  Read_format :: "64 word"
  Bits :: "64 word"
  Ext1 :: "64 word"
  Ext2 :: "64 word"

text \<open>
  One constructor for each error the sources build: the errors of \<open>io\<close>, an operating
  system error number, and one constructor for each \<open>fmt.Errorf\<close> with the values its
  message is formatted from.
\<close>

datatype error =
    EOF
  | ErrUnexpectedEOF
  | Errno nat
  | UnableToReadGroup string error
  | UnableToDecodeGroup string error
  | UnableToDecodeGroupValues string error
  | UnableToOpenCgroup string error
  | UnableToTransformEventName string int
  | CannotDecideLeader
  | SettingUpPerfEventFailed PerfEventAttr error
  | UnableToCreateFile int

datatype panic = IndexOutOfRange nat nat | MakesliceLenOutOfRange

datatype 'a result = Ok 'a | Err error | Panic panic

subsection \<open>float64, restricted to the values the collector computes\<close>

text \<open>
  \<open>getPerfValues\<close> only converts \<open>uint64\<close> values to \<open>float64\<close> and divides such values.
  Every float it can produce is therefore non-negative, and its magnitude lies between
  \<open>2 ^ -66\<close> and \<open>2 ^ 131\<close>: no subnormal, no overflow (lemmas \<open>scalingRatio_of_binary64\<close>
  and \<open>corrected_quotient_binary64\<close>).  \<open>Fin m e\<close> stands for \<open>m * 2 ^ e\<close>, kept
  normalised (\<open>m = 0\<close> and \<open>e = 0\<close>, or \<open>2 ^ 52 \<le> m < 2 ^ 53\<close>), so that equal floats are equal
  terms.  Division by zero yields \<open>PosInf\<close> or \<open>NaN\<close> as in Go; it does not panic.
  Rounding is to nearest, ties to even, on 53 significant bits (lemmas \<open>round_even_error\<close>
  and \<open>f64_div_error\<close>).
\<close>

datatype f64 = Fin (mant: nat) (expo: int) | PosInf | NaN

fun bitlen :: "nat \<Rightarrow> nat" where
  "bitlen n = (if n = 0 then 0 else Suc (bitlen (n div 2)))"

declare bitlen.simps [simp del]

text \<open>
  \<open>round_even q d sticky\<close> drops the \<open>d\<close> low bits of \<open>q\<close>, where the exact number is
  \<open>q\<close> plus a fraction in \<open>[0, 1)\<close> that is non-zero exactly when \<open>sticky\<close> holds.
\<close>

definition round_even :: "nat \<Rightarrow> nat \<Rightarrow> bool \<Rightarrow> nat" where
  "round_even q d sticky =
     (let hi = q div 2 ^ d; lo = q mod 2 ^ d; half = 2 ^ (d - 1)
      in if half < lo then hi + 1
         else if lo < half then hi
         else if sticky then hi + 1
         else if hi mod 2 = 1 then hi + 1
         else hi)"

text \<open>
  \<open>f64_round q sticky e\<close> is the float nearest to \<open>(q + fraction) * 2 ^ e\<close>.  It is called
  with \<open>sticky = False\<close> (an exact integer), or with a \<open>q\<close> of at least 55 bits.
\<close>

definition f64_round :: "nat \<Rightarrow> bool \<Rightarrow> int \<Rightarrow> f64" where
  "f64_round q sticky e =
     (if q = 0 then Fin 0 0
      else let L = bitlen q
           in if L \<le> 53 then Fin (q * 2 ^ (53 - L)) (e - int (53 - L))
              else let d = L - 53; m = round_even q d sticky
                   in if m = 2 ^ 53 then Fin (2 ^ 52) (e + int d + 1)
                      else Fin m (e + int d))"

text \<open>The conversion \<open>float64(x)\<close> of a \<open>uint64\<close>.\<close>

definition float64_of_uint64 :: "64 word \<Rightarrow> f64" where
  "float64_of_uint64 w = f64_round (unat w) False 0"

text \<open>The literal \<open>1.0\<close> and the test \<open>x != float64(0)\<close>.\<close>

definition f64_one :: f64 where
  "f64_one = Fin (2 ^ 52) (- 52)"

fun f64_nonzero :: "f64 \<Rightarrow> bool" where
  "f64_nonzero (Fin m e) = (0 < m)"
| "f64_nonzero PosInf = True"
| "f64_nonzero NaN = True"

text \<open>The quotient \<open>a / b\<close> of two floats (normalised operands).\<close>

fun f64_div :: "f64 \<Rightarrow> f64 \<Rightarrow> f64" where
  "f64_div NaN b = NaN"
| "f64_div PosInf NaN = NaN"
| "f64_div PosInf PosInf = NaN"
| "f64_div PosInf (Fin mb eb) = PosInf"
| "f64_div (Fin ma ea) NaN = NaN"
| "f64_div (Fin ma ea) PosInf = Fin 0 0"
| "f64_div (Fin ma ea) (Fin mb eb) =
     (if mb = 0 then (if ma = 0 then NaN else PosInf)
      else if ma = 0 then Fin 0 0
      else let n = ma * 2 ^ 55
           in f64_round (n div mb) (0 < n mod mb) (ea - eb - 55))"

text \<open>
  The conversion \<open>uint64(x)\<close> of a float discards the fraction.  When the integer part does
  not fit in 64 bits (or \<open>x\<close> is not finite) Go leaves the result to the implementation:
  the parameter \<open>impl\<close> stands for whatever the platform yields there.
\<close>

fun f64_trunc :: "f64 \<Rightarrow> nat option" where
  "f64_trunc (Fin m e) = Some (if 0 \<le> e then m * 2 ^ nat e else m div 2 ^ nat (- e))"
| "f64_trunc PosInf = None"
| "f64_trunc NaN = None"

definition uint64_of_float64 :: "(f64 \<Rightarrow> 64 word) \<Rightarrow> f64 \<Rightarrow> 64 word" where
  "uint64_of_float64 impl x =
     (case f64_trunc x of
        None \<Rightarrow> impl x
      | Some n \<Rightarrow> if n < 2 ^ 64 then of_nat n else impl x)"

text \<open>The rational number a finite float stands for.\<close>

definition f64_val :: "f64 \<Rightarrow> rat" where
  "f64_val x = (case x of Fin m e \<Rightarrow> of_nat m * (if 0 \<le> e then 2 ^ nat e else 1 / 2 ^ nat (- e))
                | PosInf \<Rightarrow> 0 | NaN \<Rightarrow> 0)"

subsection \<open>Little-endian decoding (\<open>encoding/binary\<close>)\<close>

type_synonym byte = "8 word"

fun le_nat :: "byte list \<Rightarrow> nat" where
  "le_nat [] = 0"
| "le_nat (b # bs) = unat b + 256 * le_nat bs"

definition le_uint64 :: "byte list \<Rightarrow> 64 word" where
  "le_uint64 bs = of_nat (le_nat (take 8 bs))"

text \<open>
  Modelled from the spec: the declarations of \<open>GroupReadFormat\<close> and \<open>Values\<close> are not
  among the sources.  The spec gives the layout: a 24-byte header (entry count, enabled
  time, running time) and 16 bytes per entry (a 64-bit counter and an opaque identifier),
  little-endian.
\<close>

record GroupReadFormat =
  Nr :: "64 word"
  TimeEnabled :: "64 word"
  TimeRunning :: "64 word"

record Values =
  Value :: "64 word"
  ID :: "64 word"

text \<open>
  \<open>binary.Read\<close> fills a fixed-size value from a reader over a byte slice: it needs the
  whole size of the value, and fails with \<open>EOF\<close> when the reader is empty and with
  \<open>ErrUnexpectedEOF\<close> when it holds some bytes but too few.  Reading zero bytes succeeds.
\<close>

definition io_ReadFull :: "nat \<Rightarrow> byte list \<Rightarrow> error + byte list" where
  "io_ReadFull n bs =
     (if n \<le> length bs then Inr (take n bs)
      else if bs = [] then Inl EOF
      else Inl ErrUnexpectedEOF)"

definition binary_Read_GroupReadFormat :: "byte list \<Rightarrow> error + GroupReadFormat" where
  "binary_Read_GroupReadFormat bs =
     (case io_ReadFull 24 bs of
        Inl e \<Rightarrow> Inl e
      | Inr d \<Rightarrow> Inr \<lparr>Nr = le_uint64 d,
                      TimeEnabled = le_uint64 (drop 8 d),
                      TimeRunning = le_uint64 (drop 16 d)\<rparr>)"

fun decode_Values :: "nat \<Rightarrow> byte list \<Rightarrow> Values list" where
  "decode_Values 0 d = []"
| "decode_Values (Suc n) d =
     \<lparr>Value = le_uint64 d, ID = le_uint64 (drop 8 d)\<rparr> # decode_Values n (drop 16 d)"

definition binary_Read_Values :: "nat \<Rightarrow> byte list \<Rightarrow> error + Values list" where
  "binary_Read_Values n bs =
     (case io_ReadFull (16 * n) bs of
        Inl e \<Rightarrow> Inl e
      | Inr d \<Rightarrow> Inr (decode_Values n d))"

text \<open>
  \<open>make([]T, n)\<close> panics when the requested length is out of range; the Go runtime on
  64-bit Linux refuses more than \<open>2 ^ 48\<close> bytes.  Running out of memory below that
  ceiling is outside the model.
\<close>

definition maxAlloc :: nat where
  "maxAlloc = 2 ^ 48"

definition makeslice_ok :: "nat \<Rightarrow> nat \<Rightarrow> bool" where
  "makeslice_ok elemSize n = (elemSize * n \<le> maxAlloc)"

section \<open>The perf collector: reading\<close>

subsection \<open>Data\<close>

text \<open>
  Modelled from the spec: \<open>info.PerfValue\<close> and \<open>info.PerfStat\<close> are declared in another
  package; the source fills the fields \<open>ScalingRatio\<close>, \<open>Value\<close>, \<open>Name\<close> and \<open>Cpu\<close>, and
  the spec describes the output as named per-CPU counter values carrying a value, a name
  and a scaling ratio.
\<close>

record PerfValue =
  ScalingRatio :: f64
  Value :: "64 word"
  Name :: string

record PerfStat = PerfValue +
  Cpu :: int

record ContainerStats =
  PerfStats :: "PerfStat list"

text \<open>
  A \<open>readerCloser\<close> is given by what its next \<open>Read(p)\<close> does for a buffer of \<open>len(p)\<close>
  bytes: the bytes it stores at the front of \<open>p\<close> (at most \<open>len(p)\<close> of them count) and
  the error it returns.
\<close>

type_synonym readerCloser = "nat \<Rightarrow> byte list \<times> error option"

text \<open>
  Go maps are association lists here: lookup is \<open>map_of\<close>, assignment is \<open>AList.update\<close>,
  and \<open>range\<close> visits the entries in list order (Go fixes no order).
\<close>

record 'f group =
  cpuFiles :: "(string \<times> (int \<times> 'f) list) list"
  names :: "string list"
  leaderName :: string

datatype log =
    FailedUncore error
  | UnableToReadFrom string int string error

subsection \<open>getPerfValues\<close>

definition zero_PerfValue :: PerfValue where
  "zero_PerfValue = \<lparr>ScalingRatio = Fin 0 0, Value = 0, Name = []\<rparr>"

text \<open>
  The two loops \<open>for i, name := range group.names\<close> of \<open>getPerfValues\<close>; \<open>mk\<close> is the
  struct literal of the loop body.  Indexing \<open>values[i]\<close> or \<open>perfValues[i]\<close> out of range
  panics.
\<close>

fun fill_perfValues ::
  "(Values \<Rightarrow> string \<Rightarrow> PerfValue) \<Rightarrow> Values list \<Rightarrow> string list \<Rightarrow> nat \<Rightarrow>
   PerfValue list \<Rightarrow> PerfValue list result" where
  "fill_perfValues mk vals [] i perfValues = Ok perfValues"
| "fill_perfValues mk vals (name # rest) i perfValues =
     (if length vals \<le> i then Panic (IndexOutOfRange i (length vals))
      else if length perfValues \<le> i then Panic (IndexOutOfRange i (length perfValues))
      else fill_perfValues mk vals rest (Suc i) (perfValues[i := mk (vals ! i) name]))"

definition read_into_buf :: "readerCloser \<Rightarrow> nat \<Rightarrow> byte list \<times> error option" where
  "read_into_buf file n =
     (let (d, err) = file n
      in (take n d @ replicate (n - length d) 0, err))"

definition scalingRatio_of :: "GroupReadFormat \<Rightarrow> f64" where
  "scalingRatio_of perfData =
     (if TimeRunning perfData = 0 then f64_one
      else if TimeEnabled perfData = 0 then f64_one
      else f64_div (float64_of_uint64 (TimeRunning perfData))
                   (float64_of_uint64 (TimeEnabled perfData)))"

definition getPerfValues ::
  "(f64 \<Rightarrow> 64 word) \<Rightarrow> readerCloser \<Rightarrow> 'f group \<Rightarrow> PerfValue list result" where
  "getPerfValues impl file grp =
     (let bufLen = 24 + 16 * length (names grp)
      in if makeslice_ok 1 bufLen then
        (case read_into_buf file bufLen of
           (buf, Some e) \<Rightarrow> Err (UnableToReadGroup (leaderName grp) e)
         | (buf, None) \<Rightarrow>
            (case binary_Read_GroupReadFormat (take 24 buf) of
               Inl e \<Rightarrow> Err (UnableToDecodeGroup (leaderName grp) e)
             | Inr perfData \<Rightarrow>
                if makeslice_ok 16 (unat (Nr perfData)) then
                  (case binary_Read_Values (unat (Nr perfData)) (drop 24 buf) of
                     Inl e \<Rightarrow> Err (UnableToDecodeGroupValues (leaderName grp) e)
                   | Inr vals \<Rightarrow>
                      (let scalingRatio = scalingRatio_of perfData
                       in if makeslice_ok 32 (unat (Nr perfData)) then
                            (if f64_nonzero scalingRatio then
                               fill_perfValues
                                 (\<lambda>v name. \<lparr>ScalingRatio = scalingRatio,
                                     Value = uint64_of_float64 impl
                                       (f64_div (float64_of_uint64 (Values.Value v)) scalingRatio),
                                     Name = name\<rparr>)
                                 vals (names grp) 0
                                 (replicate (unat (Nr perfData)) zero_PerfValue)
                             else
                               fill_perfValues
                                 (\<lambda>v name. \<lparr>ScalingRatio = scalingRatio,
                                     Value = Values.Value v,
                                     Name = name\<rparr>)
                                 vals (names grp) 0
                                 (replicate (unat (Nr perfData)) zero_PerfValue))
                          else Panic MakesliceLenOutOfRange))
                else Panic MakesliceLenOutOfRange))
        else Panic MakesliceLenOutOfRange)"

subsection \<open>readGroupPerfStat and UpdateStats\<close>

definition readGroupPerfStat ::
  "(f64 \<Rightarrow> 64 word) \<Rightarrow> readerCloser \<Rightarrow> 'f group \<Rightarrow> int \<Rightarrow> string \<Rightarrow> PerfStat list result" where
  "readGroupPerfStat impl file grp cpu cgroupPath =
     (case getPerfValues impl file grp of
        Panic p \<Rightarrow> Panic p
      | Err e \<Rightarrow> Err e
      | Ok vals \<Rightarrow>
          Ok (map (\<lambda>v. \<lparr>ScalingRatio = ScalingRatio v, Value = PerfValue.Value v,
                           Name = PerfValue.Name v, Cpu = cpu\<rparr>) vals))"

text \<open>
  Modelled from the spec: the declarations of \<open>Event\<close>, \<open>CustomEvent\<close>, \<open>Group\<close>, \<open>Events\<close>
  and \<open>PerfEvents\<close> are not among the sources.  The spec describes an event group as an
  ordered list of event names whose index 0 is the leader, and a custom event as a type
  code with up to three configuration words; the sources use the fields below.
\<close>

type_synonym Event = string

record CustomEvent =
  Type :: "32 word"
  Config :: "64 word list"
  Name :: Event

record Group =
  events :: "Event list"

record Events =
  Events :: "Group list"
  CustomEvents :: "CustomEvent list"

record PerfEvents =
  Core :: Events
  Uncore :: Events

text \<open>
  The collector.  \<open>'f\<close> is the type of the open files (any \<open>readerCloser\<close>), \<open>'u\<close> the
  uncore collector, which another file of the package declares: it is a parameter.
\<close>

record ('f, 'u) collector =
  cgroupPath :: string
  events :: PerfEvents
  cpuFiles :: "(int \<times> 'f group) list"
  onlineCPUs :: "int list"
  eventToCustomEvent :: "(Event \<times> CustomEvent) list"
  uncore :: 'u

text \<open>
  The inner loop of \<open>UpdateStats\<close> over \<open>group.cpuFiles[group.leaderName]\<close>: a read that
  fails is logged and skipped, a read that panics ends the call.  \<open>Read\<close> is the method
  \<open>Read\<close> of the files.
\<close>

fun UpdateStats_cpus ::
  "(f64 \<Rightarrow> 64 word) \<Rightarrow> ('f \<Rightarrow> readerCloser) \<Rightarrow> string \<Rightarrow> 'f group \<Rightarrow> (int \<times> 'f) list \<Rightarrow>
   PerfStat list \<times> log list \<Rightarrow> (PerfStat list \<times> log list) result" where
  "UpdateStats_cpus impl Read path grp [] acc = Ok acc"
| "UpdateStats_cpus impl Read path grp ((cpu, file) # rest) (perfStats, lg) =
     (case readGroupPerfStat impl (Read file) grp cpu path of
        Panic p \<Rightarrow> Panic p
      | Err e \<Rightarrow>
          UpdateStats_cpus impl Read path grp rest
            (perfStats, lg @ [UnableToReadFrom (leaderName grp) cpu path e])
      | Ok stat \<Rightarrow>
          UpdateStats_cpus impl Read path grp rest (perfStats @ stat, lg))"

definition leader_files :: "'f group \<Rightarrow> (int \<times> 'f) list" where
  "leader_files grp =
     (case map_of (group.cpuFiles grp) (leaderName grp) of None \<Rightarrow> [] | Some m \<Rightarrow> m)"

fun UpdateStats_groups ::
  "(f64 \<Rightarrow> 64 word) \<Rightarrow> ('f \<Rightarrow> readerCloser) \<Rightarrow> string \<Rightarrow> (int \<times> 'f group) list \<Rightarrow>
   PerfStat list \<times> log list \<Rightarrow> (PerfStat list \<times> log list) result" where
  "UpdateStats_groups impl Read path [] acc = Ok acc"
| "UpdateStats_groups impl Read path ((i, grp) # rest) acc =
     (case UpdateStats_cpus impl Read path grp (leader_files grp) acc of
        Panic p \<Rightarrow> Panic p
      | Err e \<Rightarrow> Err e
      | Ok acc' \<Rightarrow> UpdateStats_groups impl Read path rest acc')"

text \<open>
  \<open>UpdateStats\<close> returns its \<open>error\<close> result (\<open>None\<close> is \<open>nil\<close>), the statistics as it leaves
  them and the warnings and errors it logged.  \<open>uncoreUpdateStats\<close> is the method of the
  uncore collector, a parameter as well: it may return any error and any statistics.
\<close>

definition UpdateStats ::
  "('u \<Rightarrow> 's ContainerStats_scheme \<Rightarrow> error option \<times> 's ContainerStats_scheme) \<Rightarrow>
   (f64 \<Rightarrow> 64 word) \<Rightarrow> ('f \<Rightarrow> readerCloser) \<Rightarrow> ('f, 'u) collector \<Rightarrow> 's ContainerStats_scheme \<Rightarrow>
   (error option \<times> 's ContainerStats_scheme \<times> log list) result" where
  "UpdateStats uncoreUpdateStats impl Read c stats =
     (let (err, stats1) = uncoreUpdateStats (uncore c) stats;
          lg = (case err of None \<Rightarrow> [] | Some e \<Rightarrow> [FailedUncore e]);
          stats2 = stats1\<lparr>PerfStats := []\<rparr>
      in case UpdateStats_groups impl Read (cgroupPath c) (collector.cpuFiles c) ([], lg) of
           Panic p \<Rightarrow> Panic p
         | Err e \<Rightarrow> Err e
         | Ok (perfStats, lg') \<Rightarrow> Ok (None, stats2\<lparr>PerfStats := perfStats\<rparr>, lg'))"

section \<open>The perf collector: setup\<close>

subsection \<open>Constants\<close>

text \<open>
  The constants of \<open>golang.org/x/sys/unix\<close> are those of the Linux interface.  The
  constants \<open>perfSampleIdentifier\<close>, \<open>perfAttrBitsInherit\<close> and \<open>perfAttrBitsExcludeGuest\<close> are
  declared in a file of the package that is not among the sources, and the size of
  \<open>unix.PerfEventAttr\<close> depends on the version of the library: they are parameters.
\<close>

record constants =
  perfSampleIdentifier :: "64 word"
  perfAttrBitsInherit :: "64 word"
  perfAttrBitsExcludeGuest :: "64 word"
  sizeofPerfEventAttr :: "32 word"

definition groupLeaderFileDescriptor :: int where
  "groupLeaderFileDescriptor = - 1"

definition PERF_FORMAT_TOTAL_TIME_ENABLED :: "64 word" where
  "PERF_FORMAT_TOTAL_TIME_ENABLED = 1"

definition PERF_FORMAT_TOTAL_TIME_RUNNING :: "64 word" where
  "PERF_FORMAT_TOTAL_TIME_RUNNING = 2"

definition PERF_FORMAT_ID :: "64 word" where
  "PERF_FORMAT_ID = 4"

definition PERF_FORMAT_GROUP :: "64 word" where
  "PERF_FORMAT_GROUP = 8"

definition PerfBitDisabled :: "64 word" where
  "PerfBitDisabled = 1"

definition PERF_FLAG_PID_CGROUP :: int where
  "PERF_FLAG_PID_CGROUP = 4"

definition PERF_FLAG_FD_CLOEXEC :: int where
  "PERF_FLAG_FD_CLOEXEC = 8"

definition PERF_EVENT_IOC_ENABLE :: nat where
  "PERF_EVENT_IOC_ENABLE = 9216"

definition PERF_EVENT_IOC_RESET :: nat where
  "PERF_EVENT_IOC_RESET = 9219"

definition PFM_SUCCESS :: int where
  "PFM_SUCCESS = 0"

subsection \<open>Attribute configurations\<close>

definition zero_PerfEventAttr :: PerfEventAttr where
  "zero_PerfEventAttr =
     \<lparr>PerfEventAttr.Type = 0, Size = 0, PerfEventAttr.Config = 0, Sample_type = 0,
      Read_format = 0, Bits = 0, Ext1 = 0, Ext2 = 0\<rparr>"

text \<open>\<open>event.Config[0]\<close> panics when the custom event has no configuration word.\<close>

definition createPerfEventAttr :: "CustomEvent \<Rightarrow> PerfEventAttr result" where
  "createPerfEventAttr event =
     (let len = length (CustomEvent.Config event)
      in case CustomEvent.Config event of
           [] \<Rightarrow> Panic (IndexOutOfRange 0 0)
         | c0 # cs \<Rightarrow>
            (let config = zero_PerfEventAttr
                   \<lparr>PerfEventAttr.Type := CustomEvent.Type event, PerfEventAttr.Config := c0\<rparr>;
                 config1 = (if 2 \<le> len then config\<lparr>Ext1 := CustomEvent.Config event ! 1\<rparr>
                            else config);
                 config2 = (if len = 3 then config1\<lparr>Ext2 := CustomEvent.Config event ! 2\<rparr>
                            else config1)
             in Ok config2))"

definition setAttributes :: "constants \<Rightarrow> PerfEventAttr \<Rightarrow> bool \<Rightarrow> PerfEventAttr" where
  "setAttributes K config leader =
     (let config1 = config\<lparr>Sample_type := perfSampleIdentifier K\<rparr>;
          config2 = config1\<lparr>Read_format :=
                      PERF_FORMAT_TOTAL_TIME_ENABLED OR PERF_FORMAT_TOTAL_TIME_RUNNING
                        OR PERF_FORMAT_GROUP OR PERF_FORMAT_ID\<rparr>;
          config3 = config2\<lparr>Bits := perfAttrBitsInherit K OR perfAttrBitsExcludeGuest K\<rparr>;
          config4 = (if leader then config3\<lparr>Bits := Bits config3 OR PerfBitDisabled\<rparr>
                     else config3)
      in config4\<lparr>Size := sizeofPerfEventAttr K\<rparr>)"

definition createConfigFromRawEvent ::
  "constants \<Rightarrow> CustomEvent \<Rightarrow> bool \<Rightarrow> PerfEventAttr result" where
  "createConfigFromRawEvent K event isGroupLeader =
     (case createPerfEventAttr event of
        Panic p \<Rightarrow> Panic p
      | Err e \<Rightarrow> Err e
      | Ok config \<Rightarrow> Ok (setAttributes K config isGroupLeader))"

text \<open>
  \<open>pfm\<close> is the library call \<open>pfm_get_os_event_encoding\<close>: for an event name it yields its
  return code and the attribute structure it has written.
\<close>

definition readPerfEventAttr ::
  "(string \<Rightarrow> int \<times> PerfEventAttr) \<Rightarrow> string \<Rightarrow> error + PerfEventAttr" where
  "readPerfEventAttr pfm name =
     (let (pErr, attr) = pfm name
      in if pErr = PFM_SUCCESS then Inr attr
         else Inl (UnableToTransformEventName name pErr))"

definition createConfigFromEvent ::
  "constants \<Rightarrow> (string \<Rightarrow> int \<times> PerfEventAttr) \<Rightarrow> Event \<Rightarrow> bool \<Rightarrow> error + PerfEventAttr" where
  "createConfigFromEvent K pfm event isGroupLeader =
     (case readPerfEventAttr pfm event of
        Inl err \<Rightarrow> Inl err
      | Inr config \<Rightarrow> Inr (setAttributes K config isGroupLeader))"

subsection \<open>The kernel\<close>

text \<open>
  Every system call of \<open>setup\<close> is recorded with its arguments and its result.  The kernel
  is any function from the calls made so far and the arguments to a result.
\<close>

datatype syscall =
    OsOpen string "error + int"
  | PerfEventOpen PerfEventAttr int int int int "error + int"
  | IoctlSetInt int nat int "error option"
  | OsClose int

record kernel =
  os_Open :: "syscall list \<Rightarrow> string \<Rightarrow> error + int"
  unix_PerfEventOpen ::
    "syscall list \<Rightarrow> PerfEventAttr \<Rightarrow> int \<Rightarrow> int \<Rightarrow> int \<Rightarrow> int \<Rightarrow> error + int"
  unix_IoctlSetInt :: "syscall list \<Rightarrow> int \<Rightarrow> nat \<Rightarrow> int \<Rightarrow> error option"

text \<open>An \<open>*os.File\<close> made by \<open>os.NewFile\<close>: its descriptor and its name.\<close>

record os_File =
  fd :: int
  name :: string

record eventInfo =
  name :: string
  config :: PerfEventAttr
  pid :: int
  groupIndex :: int

text \<open>Reading a Go map of integers at a key: the zero value when the key is missing.\<close>

definition map_get :: "(int \<times> int) list \<Rightarrow> int \<Rightarrow> int" where
  "map_get m k = (case map_of m k of None \<Rightarrow> 0 | Some v \<Rightarrow> v)"

subsection \<open>addEventFile and registerEvent\<close>

definition addEventFile ::
  "('f, 'u) collector \<Rightarrow> int \<Rightarrow> string \<Rightarrow> int \<Rightarrow> 'f \<Rightarrow> ('f, 'u) collector" where
  "addEventFile c index nm cpu perfFile =
     (let g0 = (case map_of (collector.cpuFiles c) index of
                  None \<Rightarrow> \<lparr>group.cpuFiles = [], names = [], leaderName = nm\<rparr>
                | Some g \<Rightarrow> g);
          files0 = (case map_of (group.cpuFiles g0) nm of None \<Rightarrow> [] | Some m \<Rightarrow> m);
          g1 = g0\<lparr>group.cpuFiles :=
                    AList.update nm (AList.update cpu perfFile files0) (group.cpuFiles g0)\<rparr>;
          g2 = (if List.member (names g1) nm then g1 else g1\<lparr>names := names g1 @ [nm]\<rparr>)
      in c\<lparr>collector.cpuFiles := AList.update index g2 (collector.cpuFiles c)\<rparr>)"

text \<open>
  The loop of \<open>registerEvent\<close> over the online CPUs.  The state is the collector, the map
  \<open>newLeaderFileDescriptors\<close> and the calls made so far.  \<open>os.NewFile\<close> returns \<open>nil\<close> for a
  negative descriptor.
\<close>

fun registerEvent_cpus ::
  "kernel \<Rightarrow> eventInfo \<Rightarrow> int \<Rightarrow> int \<Rightarrow> bool \<Rightarrow> (int \<times> int) list \<Rightarrow> int list \<Rightarrow>
   (os_File, 'u) collector \<Rightarrow> (int \<times> int) list \<Rightarrow> syscall list \<Rightarrow>
   (int \<times> int) list result \<times> (os_File, 'u) collector \<times> syscall list" where
  "registerEvent_cpus kern event pid' flags isGroupLeader leaderFileDescriptors [] c newLeader tr =
     (Ok newLeader, c, tr)"
| "registerEvent_cpus kern event pid' flags isGroupLeader leaderFileDescriptors (cpu # cpus)
     c newLeader tr =
     (let r = unix_PerfEventOpen kern tr (config event) pid' cpu
                (map_get leaderFileDescriptors cpu) flags;
          tr1 = tr @ [PerfEventOpen (config event) pid' cpu
                        (map_get leaderFileDescriptors cpu) flags r]
      in case r of
           Inl err \<Rightarrow> (Err (SettingUpPerfEventFailed (config event) err), c, tr1)
         | Inr fd' \<Rightarrow>
             if fd' < 0 then (Err (UnableToCreateFile fd'), c, tr1)
             else
               (let c1 = addEventFile c (groupIndex event) (eventInfo.name event) cpu
                           \<lparr>fd = fd', os_File.name = eventInfo.name event\<rparr>;
                    newLeader1 = (if isGroupLeader then AList.update cpu fd' newLeader
                                  else newLeader)
                in registerEvent_cpus kern event pid' flags isGroupLeader
                     leaderFileDescriptors cpus c1 newLeader1 tr1))"

definition registerEvent ::
  "kernel \<Rightarrow> (os_File, 'u) collector \<Rightarrow> eventInfo \<Rightarrow> (int \<times> int) list \<Rightarrow> syscall list \<Rightarrow>
   (int \<times> int) list result \<times> (os_File, 'u) collector \<times> syscall list" where
  "registerEvent kern c event leaderFileDescriptors tr =
     (if length leaderFileDescriptors = length (onlineCPUs c) then
        (if map_get leaderFileDescriptors 0 = groupLeaderFileDescriptor then
           (case registerEvent_cpus kern event (pid event)
                   (PERF_FLAG_FD_CLOEXEC + PERF_FLAG_PID_CGROUP) True
                   leaderFileDescriptors (onlineCPUs c) c [] tr of
              (Ok newLeader, c', tr') \<Rightarrow> (Ok newLeader, c', tr')
            | (Err e, c', tr') \<Rightarrow> (Err e, c', tr')
            | (Panic p, c', tr') \<Rightarrow> (Panic p, c', tr'))
         else
           (case registerEvent_cpus kern event (- 1) PERF_FLAG_FD_CLOEXEC False
                   leaderFileDescriptors (onlineCPUs c) c [] tr of
              (Ok newLeader, c', tr') \<Rightarrow> (Ok leaderFileDescriptors, c', tr')
            | (Err e, c', tr') \<Rightarrow> (Err e, c', tr')
            | (Panic p, c', tr') \<Rightarrow> (Panic p, c', tr')))
      else (Err CannotDecideLeader, c, tr))"

subsection \<open>setup\<close>

text \<open>
  The loop over the events of group \<open>i\<close>; \<open>j\<close> is the index of the event in the group and
  the first event (\<open>j = 0\<close>) is configured as the leader.
\<close>

fun setup_events ::
  "constants \<Rightarrow> (string \<Rightarrow> int \<times> PerfEventAttr) \<Rightarrow> kernel \<Rightarrow> int \<Rightarrow> int \<Rightarrow> nat \<Rightarrow> Event list \<Rightarrow>
   (int \<times> int) list \<Rightarrow> (os_File, 'u) collector \<Rightarrow> syscall list \<Rightarrow>
   (int \<times> int) list result \<times> (os_File, 'u) collector \<times> syscall list" where
  "setup_events K pfm kern cgroupFd i j [] leaderFileDescriptors c tr =
     (Ok leaderFileDescriptors, c, tr)"
| "setup_events K pfm kern cgroupFd i j (event # rest) leaderFileDescriptors c tr =
     (let isGroupLeader = (j = 0)
      in case map_of (eventToCustomEvent c) event of
           Some customEvent \<Rightarrow>
             (case createConfigFromRawEvent K customEvent isGroupLeader of
                Panic p \<Rightarrow> (Panic p, c, tr)
              | Err e \<Rightarrow> (Err e, c, tr)
              | Ok config' \<Rightarrow>
                 (case registerEvent kern c
                         \<lparr>name = CustomEvent.Name customEvent, config = config',
                          pid = cgroupFd, groupIndex = i\<rparr>
                         leaderFileDescriptors tr of
                    (Ok lfd, c', tr') \<Rightarrow> setup_events K pfm kern cgroupFd i (Suc j) rest lfd c' tr'
                  | (Err e, c', tr') \<Rightarrow> (Err e, c', tr')
                  | (Panic p, c', tr') \<Rightarrow> (Panic p, c', tr')))
         | None \<Rightarrow>
             (case createConfigFromEvent K pfm event isGroupLeader of
                Inl err \<Rightarrow> (Err err, c, tr)
              | Inr config' \<Rightarrow>
                 (case registerEvent kern c
                         \<lparr>name = event, config = config', pid = cgroupFd, groupIndex = i\<rparr>
                         leaderFileDescriptors tr of
                    (Ok lfd, c', tr') \<Rightarrow> setup_events K pfm kern cgroupFd i (Suc j) rest lfd c' tr'
                  | (Err e, c', tr') \<Rightarrow> (Err e, c', tr')
                  | (Panic p, c', tr') \<Rightarrow> (Panic p, c', tr'))))"

text \<open>
  The loop \<open>for _, fd := range leaderFileDescriptors\<close>: reset, then enable, on every
  descriptor of the map; the first failure is returned as it is.  The entries are visited
  in list order (Go fixes no order).
\<close>

fun reset_and_enable ::
  "kernel \<Rightarrow> (int \<times> int) list \<Rightarrow> syscall list \<Rightarrow> unit result \<times> syscall list" where
  "reset_and_enable kern [] tr = (Ok (), tr)"
| "reset_and_enable kern ((cpu, fd') # rest) tr =
     (let r1 = unix_IoctlSetInt kern tr fd' PERF_EVENT_IOC_RESET 0;
          tr1 = tr @ [IoctlSetInt fd' PERF_EVENT_IOC_RESET 0 r1]
      in case r1 of
           Some err \<Rightarrow> (Err err, tr1)
         | None \<Rightarrow>
            (let r2 = unix_IoctlSetInt kern tr1 fd' PERF_EVENT_IOC_ENABLE 0;
                 tr2 = tr1 @ [IoctlSetInt fd' PERF_EVENT_IOC_ENABLE 0 r2]
             in case r2 of
                  Some err \<Rightarrow> (Err err, tr2)
                | None \<Rightarrow> reset_and_enable kern rest tr2))"

definition new_leaderFileDescriptors :: "int list \<Rightarrow> (int \<times> int) list" where
  "new_leaderFileDescriptors cpus =
     fold (\<lambda>cpu m. AList.update cpu groupLeaderFileDescriptor m) cpus []"

fun setup_groups ::
  "constants \<Rightarrow> (string \<Rightarrow> int \<times> PerfEventAttr) \<Rightarrow> kernel \<Rightarrow> int \<Rightarrow> nat \<Rightarrow> Group list \<Rightarrow>
   (os_File, 'u) collector \<Rightarrow> syscall list \<Rightarrow>
   unit result \<times> (os_File, 'u) collector \<times> syscall list" where
  "setup_groups K pfm kern cgroupFd i [] c tr = (Ok (), c, tr)"
| "setup_groups K pfm kern cgroupFd i (grp # rest) c tr =
     (case setup_events K pfm kern cgroupFd (int i) 0 (Group.events grp)
             (new_leaderFileDescriptors (onlineCPUs c)) c tr of
        (Panic p, c', tr') \<Rightarrow> (Panic p, c', tr')
      | (Err e, c', tr') \<Rightarrow> (Err e, c', tr')
      | (Ok lfd, c', tr') \<Rightarrow>
          (case reset_and_enable kern lfd tr' of
             (Panic p, tr'') \<Rightarrow> (Panic p, c', tr'')
           | (Err e, tr'') \<Rightarrow> (Err e, c', tr'')
           | (Ok u, tr'') \<Rightarrow> setup_groups K pfm kern cgroupFd (Suc i) rest c' tr''))"

text \<open>
  The method \<open>setup\<close> of the collector opens the cgroup directory, runs the groups and, whatever the outcome, closes
  the cgroup directory again (\<open>defer cgroup.Close()\<close>).  It returns its outcome, the
  collector as it leaves it and the system calls it made.
\<close>

definition collector_setup ::
  "constants \<Rightarrow> (string \<Rightarrow> int \<times> PerfEventAttr) \<Rightarrow> kernel \<Rightarrow> (os_File, 'u) collector \<Rightarrow>
   unit result \<times> (os_File, 'u) collector \<times> syscall list" where
  "collector_setup K pfm kern c =
     (let r = os_Open kern [] (cgroupPath c);
          tr0 = [OsOpen (cgroupPath c) r]
      in case r of
           Inl err \<Rightarrow> (Err (UnableToOpenCgroup (cgroupPath c) err), c, tr0)
         | Inr cgroupFd \<Rightarrow>
            (case setup_groups K pfm kern cgroupFd 0 (Events (Core (collector.events c))) c tr0 of
               (res, c', tr') \<Rightarrow> (res, c', tr' @ [OsClose cgroupFd])))"

definition mapEventsToCustomEvents :: "('f, 'u) collector \<Rightarrow> ('f, 'u) collector" where
  "mapEventsToCustomEvents c =
     c\<lparr>eventToCustomEvent :=
         fold (\<lambda>event m. AList.update (CustomEvent.Name event) event m)
           (CustomEvents (Core (collector.events c))) []\<rparr>"

text \<open>\<open>newCollector\<close>; \<open>u\<close> is the uncore collector that \<open>NewUncoreCollector\<close> returns.\<close>

definition newCollector :: "'u \<Rightarrow> string \<Rightarrow> PerfEvents \<Rightarrow> int list \<Rightarrow> ('f, 'u) collector" where
  "newCollector u path evs cpus =
     mapEventsToCustomEvents
       \<lparr>cgroupPath = path, events = evs, cpuFiles = [], onlineCPUs = cpus,
        eventToCustomEvent = [], uncore = u\<rparr>"

section \<open>The symbolic event resolver: initialisation and termination\<close>

text \<open>
  The package variable \<open>isLibpfmInitialized\<close>, together with the calls made to the library.
  \<open>init\<close> and \<open>Finalize\<close> run under one lock, so each is a single step.
\<close>

datatype pfm_call = Pfm_initialize int | Pfm_terminate

record libpfm =
  isLibpfmInitialized :: bool
  pfm_calls :: "pfm_call list"

definition libpfm_start :: libpfm where
  "libpfm_start = \<lparr>isLibpfmInitialized = False, pfm_calls = []\<rparr>"

text \<open>\<open>init\<close>; \<open>pErr\<close> is what \<open>pfm_initialize\<close> returns.\<close>

definition init :: "int \<Rightarrow> libpfm \<Rightarrow> libpfm" where
  "init pErr s =
     (let s1 = s\<lparr>pfm_calls := pfm_calls s @ [Pfm_initialize pErr]\<rparr>
      in if pErr = PFM_SUCCESS then s1\<lparr>isLibpfmInitialized := True\<rparr> else s1)"

definition Finalize :: "libpfm \<Rightarrow> libpfm" where
  "Finalize s =
     (if isLibpfmInitialized s
      then s\<lparr>pfm_calls := pfm_calls s @ [Pfm_terminate], isLibpfmInitialized := False\<rparr>
      else s)"

datatype libpfm_step = Init int | Finalize_step

fun libpfm_run :: "libpfm_step list \<Rightarrow> libpfm \<Rightarrow> libpfm" where
  "libpfm_run [] s = s"
| "libpfm_run (Init pErr # rest) s = libpfm_run rest (init pErr s)"
| "libpfm_run (Finalize_step # rest) s = libpfm_run rest (Finalize s)"

definition terminations :: "libpfm \<Rightarrow> nat" where
  "terminations s = length (filter (\<lambda>c. c = Pfm_terminate) (pfm_calls s))"

definition initialisations :: "libpfm \<Rightarrow> nat" where
  "initialisations s = length (filter (\<lambda>c. c = Pfm_initialize PFM_SUCCESS) (pfm_calls s))"

section \<open>The resctrl collector\<close>

text \<open>
  \<open>intelrdt.IntelRdtManager\<close> and the functions of \<open>cgroups\<close> belong to an external
  library (runc): they are the resource-control filesystem, with a monitoring-group
  directory per container, a writable assignment of process ids, and the enumeration of
  the pids of a cgroup.  Each call of the collector into that library is recorded, and
  what the call returns is given by the environment.
\<close>

datatype intelrdt_Type = MON | CTRL_MON

record IntelRdtManager =
  Id :: string
  Type :: intelrdt_Type

record resctrl_collector =
  resctrl :: IntelRdtManager
  pidsPath :: string

datatype fs_op =
    IsCgroup2UnifiedMode
  | RdtSet IntelRdtManager
  | GetPids string
  | RdtApply IntelRdtManager int
  | RdtDestroy IntelRdtManager

record resctrl_env =
  isCgroup2UnifiedMode :: bool
  filepath_Join :: "string \<Rightarrow> string \<Rightarrow> string"
  rdt_Set :: "fs_op list \<Rightarrow> IntelRdtManager \<Rightarrow> error option"
  cgroups_GetPids :: "fs_op list \<Rightarrow> string \<Rightarrow> error + int list"
  rdt_Apply :: "fs_op list \<Rightarrow> IntelRdtManager \<Rightarrow> int \<Rightarrow> error option"
  rdt_Destroy :: "fs_op list \<Rightarrow> IntelRdtManager \<Rightarrow> error option"

definition rootContainerID :: string where
  "rootContainerID = ''/''"

fun updatePids_loop ::
  "resctrl_env \<Rightarrow> resctrl_collector \<Rightarrow> int list \<Rightarrow> fs_op list \<Rightarrow> error option \<times> fs_op list" where
  "updatePids_loop env c [] ops = (None, ops)"
| "updatePids_loop env c (p # pids) ops =
     (case rdt_Apply env ops (resctrl c) p of
        Some err \<Rightarrow> (Some err, ops @ [RdtApply (resctrl c) p])
      | None \<Rightarrow> updatePids_loop env c pids (ops @ [RdtApply (resctrl c) p]))"

definition updatePids ::
  "resctrl_env \<Rightarrow> resctrl_collector \<Rightarrow> fs_op list \<Rightarrow> error option \<times> fs_op list" where
  "updatePids env c ops =
     (case cgroups_GetPids env ops (pidsPath c) of
        Inl err \<Rightarrow> (Some err, ops @ [GetPids (pidsPath c)])
      | Inr pids \<Rightarrow> updatePids_loop env c pids (ops @ [GetPids (pidsPath c)]))"

text \<open>
  \<open>newCollector\<close> of package \<open>resctrl\<close>: the collector or the error, and the operations
  performed on the filesystem.
\<close>

definition resctrl_newCollector ::
  "resctrl_env \<Rightarrow> string \<Rightarrow> (error + resctrl_collector) \<times> fs_op list" where
  "resctrl_newCollector env id' =
     (if id' = rootContainerID then
        (Inr \<lparr>resctrl = \<lparr>Id = id', Type = CTRL_MON\<rparr>, pidsPath = []\<rparr>, [])
      else
        (let pidsPath' = (if isCgroup2UnifiedMode env
                          then filepath_Join env ''/sys/fs/cgroup'' id'
                          else filepath_Join env ''/sys/fs/cgroup/cpu'' id');
             c = \<lparr>resctrl = \<lparr>Id = id', Type = MON\<rparr>, pidsPath = pidsPath'\<rparr>;
             ops1 = [IsCgroup2UnifiedMode]
         in case rdt_Set env ops1 (resctrl c) of
              Some err \<Rightarrow> (Inl err, ops1 @ [RdtSet (resctrl c)])
            | None \<Rightarrow>
               (case updatePids env c (ops1 @ [RdtSet (resctrl c)]) of
                  (Some err, ops) \<Rightarrow> (Inl err, ops)
                | (None, ops) \<Rightarrow> (Inr c, ops))))"

text \<open>\<open>Destroy\<close> of package \<open>resctrl\<close>: the operations performed and the errors logged.\<close>

definition resctrl_Destroy ::
  "resctrl_env \<Rightarrow> resctrl_collector \<Rightarrow> fs_op list \<times> error list" where
  "resctrl_Destroy env c =
     (if Id (resctrl c) = rootContainerID then ([], [])
      else
        (case rdt_Destroy env [] (resctrl c) of
           Some err \<Rightarrow> ([RdtDestroy (resctrl c)], [err])
         | None \<Rightarrow> ([RdtDestroy (resctrl c)], [])))"

section \<open>Notions used in the statements\<close>

text \<open>A float in normal form with a non-zero significand of exactly 53 bits.\<close>

definition f64_normal :: "f64 \<Rightarrow> bool" where
  "f64_normal x = (case x of Fin m e \<Rightarrow> 2 ^ 52 \<le> m \<and> m < 2 ^ 53 | PosInf \<Rightarrow> False | NaN \<Rightarrow> False)"

text \<open>
  The floats that binary64 holds exactly as zero or as a normal number: with a mantissa of
  53 bits the exponent of the last bit ranges from \<open>-1074\<close> to \<open>971\<close>.
\<close>

definition f64_binary64 :: "f64 \<Rightarrow> bool" where
  "f64_binary64 x =
     (case x of
        Fin m e \<Rightarrow> (m = 0 \<and> e = 0) \<or> (2 ^ 52 \<le> m \<and> m < 2 ^ 53 \<and> - 1074 \<le> e \<and> e \<le> 971)
      | PosInf \<Rightarrow> False
      | NaN \<Rightarrow> False)"

text \<open>
  The entry that the loops of \<open>getPerfValues\<close> store for a decoded value and a name: the
  first loop when the ratio is not zero, the second loop otherwise.
\<close>

definition perfValue_of :: "(f64 \<Rightarrow> 64 word) \<Rightarrow> f64 \<Rightarrow> Values \<Rightarrow> string \<Rightarrow> PerfValue" where
  "perfValue_of impl r v n =
     \<lparr>ScalingRatio = r,
      Value = (if f64_nonzero r
               then uint64_of_float64 impl (f64_div (float64_of_uint64 (Values.Value v)) r)
               else Values.Value v),
      Name = n\<rparr>"

text \<open>
  The calls \<open>unix.PerfEventOpen\<close> that one event makes when every open succeeds: one for each
  CPU, passing the entry of the leader map for that CPU; \<open>fds\<close> are the descriptors returned.
\<close>

definition open_calls ::
  "PerfEventAttr \<Rightarrow> int \<Rightarrow> int \<Rightarrow> (int \<times> int) list \<Rightarrow> int list \<Rightarrow> int list \<Rightarrow> syscall list" where
  "open_calls cfg pid' flags lfd cpus fds =
     map (\<lambda>(cpu, d). PerfEventOpen cfg pid' cpu (map_get lfd cpu) flags (Inr d)) (zip cpus fds)"

text \<open>The calls of the events that follow the leader of a group.\<close>

definition sibling_calls ::
  "constants \<Rightarrow> (int \<times> int) list \<Rightarrow> int list \<Rightarrow> (PerfEventAttr \<times> int list) list \<Rightarrow> syscall list" where
  "sibling_calls K lfd cpus afs =
     concat (map (\<lambda>(a, fds). open_calls (setAttributes K a False) (- 1) PERF_FLAG_FD_CLOEXEC
                                lfd cpus fds) afs)"

text \<open>The control operations on the entries of a leader map when each of them succeeds.\<close>

definition enable_calls :: "(int \<times> int) list \<Rightarrow> syscall list" where
  "enable_calls lfd =
     concat (map (\<lambda>(cpu, d). [IoctlSetInt d PERF_EVENT_IOC_RESET 0 None,
                                IoctlSetInt d PERF_EVENT_IOC_ENABLE 0 None]) lfd)"

text \<open>
  A descriptor is opened by a successful \<open>PerfEventOpen\<close>; it is opened as a leader when the
  group descriptor passed is the sentinel \<open>-1\<close>.
\<close>

fun is_open :: "syscall \<Rightarrow> bool" where
  "is_open (PerfEventOpen a p c g f (Inr d)) = True"
| "is_open s = False"

fun is_leader_open :: "syscall \<Rightarrow> bool" where
  "is_leader_open (PerfEventOpen a p c g f (Inr d)) = (g = groupLeaderFileDescriptor)"
| "is_leader_open s = False"

text \<open>The control operations of a trace.\<close>

fun is_ioctl :: "syscall \<Rightarrow> bool" where
  "is_ioctl (IoctlSetInt d req v r) = True"
| "is_ioctl s = False"




text \<open>
  A call has failed when the kernel returned an error, or a descriptor that
  \<open>os.NewFile\<close> refuses.  \<open>error_of\<close> is the error that \<open>setup\<close> returns for a failed call:
  the path and the error for the cgroup directory, the configuration and the error for an
  open, the descriptor for a refused file, and the bare error of the kernel for a
  control operation.
\<close>

fun failed :: "syscall \<Rightarrow> bool" where
  "failed (OsOpen p (Inl e)) = True"
| "failed (PerfEventOpen a p c g f (Inl e)) = True"
| "failed (PerfEventOpen a p c g f (Inr d)) = (d < 0)"
| "failed (IoctlSetInt d req v (Some e)) = True"
| "failed s = False"

fun error_of :: "syscall \<Rightarrow> error" where
  "error_of (OsOpen p (Inl e)) = UnableToOpenCgroup p e"
| "error_of (PerfEventOpen a p c g f (Inl e)) = SettingUpPerfEventFailed a e"
| "error_of (PerfEventOpen a p c g f (Inr d)) = UnableToCreateFile d"
| "error_of (IoctlSetInt d req v (Some e)) = e"
| "error_of s = CannotDecideLeader"

text \<open>The descriptors that the calls of a trace have opened, closed, and opened for the cgroup
  directory.\<close>

fun opened_fd :: "syscall \<Rightarrow> int list" where
  "opened_fd (PerfEventOpen a p c g f (Inr d)) = (if 0 \<le> d then [d] else [])"
| "opened_fd s = []"

definition opened_fds :: "syscall list \<Rightarrow> int list" where
  "opened_fds tr = concat (map opened_fd tr)"







text \<open>
  \<open>outcome_ok P res new\<close>: the calls \<open>new\<close> stop at the first failure and \<open>res\<close> is the
  error of that failure; when no call has failed, an error result satisfies \<open>P\<close>.
\<close>

definition outcome_ok :: "(error \<Rightarrow> bool) \<Rightarrow> 'a result \<Rightarrow> syscall list \<Rightarrow> bool" where
  "outcome_ok P res new =
     (if filter failed new = [] then (case res of Err e \<Rightarrow> P e | Ok x \<Rightarrow> True | Panic p \<Rightarrow> True)
      else filter failed (butlast new) = [] \<and> failed (last new) \<and> res = Err (error_of (last new)))"




section \<open>Scenarios\<close>

text \<open>
  The kernel side of the binary read contract: the bytes of a group read, little-endian,
  for a header and its value entries.  These encoders and the environments below serve
  to state concrete runs of the collector.
\<close>

fun enc_le :: "nat \<Rightarrow> nat \<Rightarrow> byte list" where
  "enc_le 0 n = []"
| "enc_le (Suc k) n = of_nat (n mod 256) # enc_le k (n div 256)"

definition enc_uint64 :: "64 word \<Rightarrow> byte list" where
  "enc_uint64 w = enc_le 8 (unat w)"

fun enc_Values :: "Values list \<Rightarrow> byte list" where
  "enc_Values [] = []"
| "enc_Values (v # vs) = enc_uint64 (Values.Value v) @ enc_uint64 (ID v) @ enc_Values vs"

definition enc_group_read :: "GroupReadFormat \<Rightarrow> Values list \<Rightarrow> byte list" where
  "enc_group_read h vs =
     enc_uint64 (Nr h) @ enc_uint64 (TimeEnabled h) @ enc_uint64 (TimeRunning h) @ enc_Values vs"

text \<open>A file whose next read delivers the given bytes, as many as the buffer takes.\<close>

definition file_of_bytes :: "byte list \<Rightarrow> readerCloser" where
  "file_of_bytes bs n = (take n bs, None)"

text \<open>A group with the given registered names and no file (for \<open>getPerfValues\<close> alone).\<close>

definition ex_group :: "string list \<Rightarrow> unit group" where
  "ex_group nms = \<lparr>group.cpuFiles = [], names = nms, leaderName = hd nms\<rparr>"

text \<open>Group reads: a header and its entries.\<close>

definition read_1000_0 :: "byte list" where
  "read_1000_0 =
     enc_group_read \<lparr>Nr = 1, TimeEnabled = 1000, TimeRunning = 0\<rparr>
       [\<lparr>Values.Value = 100, ID = 0\<rparr>]"

definition read_3_2 :: "byte list" where
  "read_3_2 =
     enc_group_read \<lparr>Nr = 1, TimeEnabled = 3, TimeRunning = 2\<rparr>
       [\<lparr>Values.Value = 1, ID = 0\<rparr>]"

definition read_1000_500 :: "64 word \<Rightarrow> 64 word \<Rightarrow> 64 word \<Rightarrow> byte list" where
  "read_1000_500 i1 i2 i3 =
     enc_group_read \<lparr>Nr = 3, TimeEnabled = 1000, TimeRunning = 500\<rparr>
       [\<lparr>Values.Value = 100, ID = i1\<rparr>, \<lparr>Values.Value = 200, ID = i2\<rparr>,
        \<lparr>Values.Value = 300, ID = i3\<rparr>]"

text \<open>
  A collector as \<open>setup\<close> leaves it for one group of two events on the CPUs 0 and 1.  A
  file is given by the bytes its next read delivers; \<open>f0\<close> and \<open>f1\<close> are the files of the
  leader on the two CPUs.
\<close>

definition ex_events :: PerfEvents where
  "ex_events =
     \<lparr>Core = \<lparr>Events = [\<lparr>Group.events = [''instructions'', ''cycles'']\<rparr>],
               CustomEvents = []\<rparr>,
      Uncore = \<lparr>Events = [], CustomEvents = []\<rparr>\<rparr>"

definition ex_reading_group :: "byte list \<Rightarrow> byte list \<Rightarrow> byte list group" where
  "ex_reading_group f0 f1 =
     \<lparr>group.cpuFiles = [(''instructions'', [(0, f0), (1, f1)]), (''cycles'', [(0, []), (1, [])])],
      names = [''instructions'', ''cycles''],
      leaderName = ''instructions''\<rparr>"

definition ex_reading_collector :: "byte list \<Rightarrow> byte list \<Rightarrow> (byte list, unit) collector" where
  "ex_reading_collector f0 f1 =
     \<lparr>cgroupPath = ''/sys/fs/cgroup/perf_event/c1'', events = ex_events,
      cpuFiles = [(0, ex_reading_group f0 f1)],
      onlineCPUs = [0, 1], eventToCustomEvent = [], uncore = ()\<rparr>"

text \<open>
  Reads for that group, whose buffer takes 56 bytes: a complete read of two entries; a
  complete read whose header counts one entry; a read that stops after the 24 bytes of
  the header; a read of 56 zero bytes.
\<close>

definition read_two :: "byte list" where
  "read_two =
     enc_group_read \<lparr>Nr = 2, TimeEnabled = 1000, TimeRunning = 1000\<rparr>
       [\<lparr>Values.Value = 100, ID = 1\<rparr>, \<lparr>Values.Value = 200, ID = 2\<rparr>]"

definition read_count_one :: "byte list" where
  "read_count_one =
     enc_group_read \<lparr>Nr = 1, TimeEnabled = 1000, TimeRunning = 1000\<rparr>
       [\<lparr>Values.Value = 100, ID = 1\<rparr>, \<lparr>Values.Value = 200, ID = 2\<rparr>]"

definition read_header_only :: "byte list" where
  "read_header_only =
     enc_group_read \<lparr>Nr = 2, TimeEnabled = 1000, TimeRunning = 1000\<rparr> []"

definition read_zeros :: "byte list" where
  "read_zeros = replicate 56 0"

text \<open>
  A kernel for the scenarios: every open succeeds with a fresh descriptor, and a control
  operation fails with \<open>EBADF\<close> (9) on a negative descriptor and succeeds otherwise.
\<close>

definition ex_kernel :: kernel where
  "ex_kernel =
     \<lparr>os_Open = (\<lambda>tr path. Inr (3 + int (length tr))),
      unix_PerfEventOpen = (\<lambda>tr attr pid' cpu gfd flags. Inr (3 + int (length tr))),
      unix_IoctlSetInt = (\<lambda>tr fd' req v. if fd' < 0 then Some (Errno 9) else None)\<rparr>"

text \<open>A resolver that knows three event names.\<close>

definition ex_pfm :: "string \<Rightarrow> int \<times> PerfEventAttr" where
  "ex_pfm nm = (if nm = ''instructions'' then (0, zero_PerfEventAttr\<lparr>PerfEventAttr.Config := 192\<rparr>)
               else if nm = ''cycles'' then (0, zero_PerfEventAttr\<lparr>PerfEventAttr.Config := 60\<rparr>)
               else if nm = ''cache-misses'' then (0, zero_PerfEventAttr\<lparr>PerfEventAttr.Config := 3\<rparr>)
               else (- 1, zero_PerfEventAttr))"

text \<open>The values that the package constants have in the kernel interface.\<close>

definition ex_constants :: constants where
  "ex_constants = \<lparr>perfSampleIdentifier = 65536, perfAttrBitsInherit = 2,
                    perfAttrBitsExcludeGuest = 1048576, sizeofPerfEventAttr = 128\<rparr>"

text \<open>A freshly constructed collector for one group of events on the given CPUs.\<close>

definition one_group :: "Event list \<Rightarrow> PerfEvents" where
  "one_group es =
     \<lparr>Core = \<lparr>Events = [\<lparr>Group.events = es\<rparr>], CustomEvents = []\<rparr>,
      Uncore = \<lparr>Events = [], CustomEvents = []\<rparr>\<rparr>"

definition ex_collector :: "Event list \<Rightarrow> int list \<Rightarrow> (os_File, unit) collector" where
  "ex_collector es cpus = newCollector () ''/sys/fs/cgroup/perf_event/c1'' (one_group es) cpus"




section \<open>Properties of the float model\<close>

lemma bitlen_bounds: "0 < n \<Longrightarrow> 2 ^ (bitlen n - 1) \<le> n \<and> n < 2 ^ bitlen n"
proof (induction n rule: bitlen.induct)
  case (1 n)
  show ?case
  proof (cases "n div 2 = 0")
    case True
    with "1.prems" have "n = 1" by (simp add: div_eq_0_iff) 
    then show ?thesis by (simp add: bitlen.simps)
  next
    case False
    with "1.IH" "1.prems" have ih: "2 ^ (bitlen (n div 2) - 1) \<le> n div 2" "n div 2 < 2 ^ bitlen (n div 2)"
      by auto
    have pos: "0 < bitlen (n div 2)" using False by (simp add: bitlen.simps)
    have b: "bitlen n = Suc (bitlen (n div 2))" using "1.prems" by (simp add: bitlen.simps)
    have "2 * 2 ^ (bitlen (n div 2) - 1) \<le> n" using ih(1) by linarith
    moreover have "2 * 2 ^ (bitlen (n div 2) - 1) = (2::nat) ^ bitlen (n div 2)"
      using pos by (cases "bitlen (n div 2)") auto
    moreover have "n < 2 * 2 ^ bitlen (n div 2)" using ih(2) by linarith
    ultimately show ?thesis by (simp add: b)
  qed
qed

lemma bitlen_pos: "0 < n \<Longrightarrow> 0 < bitlen n"
  by (simp add: bitlen.simps)

lemma round_even_bounds:
  "q div 2 ^ d \<le> round_even q d s \<and> round_even q d s \<le> q div 2 ^ d + 1"
  by (simp add: round_even_def Let_def)

lemma pow2_split: "a \<le> b \<Longrightarrow> (2::nat) ^ b = 2 ^ a * 2 ^ (b - a)"
  by (metis le_add_diff_inverse power_add)

lemma scale_up_bounds:
  assumes "0 < L" "L \<le> p" "2 ^ (L - 1) \<le> q" "q < 2 ^ L"
  shows "2 ^ (p - 1) \<le> q * 2 ^ (p - L) \<and> q * 2 ^ (p - L) < (2::nat) ^ p"
proof -
  have "q * 2 ^ (p - L) < 2 ^ L * 2 ^ (p - L)" using assms(4) by simp
  also have "\<dots> = (2::nat) ^ p" using pow2_split [OF assms(2)] by simp
  finally have u: "q * 2 ^ (p - L) < 2 ^ p" .
  have "L - 1 \<le> p - 1" using assms by simp
  from pow2_split [OF this] have "(2::nat) ^ (p - 1) = 2 ^ (L - 1) * 2 ^ (p - L)"
    using assms(1,2) by simp
  also have "\<dots> \<le> q * 2 ^ (p - L)" using assms(3) by simp
  finally show ?thesis using u by simp
qed

lemma scale_down_bounds:
  assumes "p < L" "0 < p" "2 ^ (L - 1) \<le> q" "q < 2 ^ L"
  shows "2 ^ (p - 1) \<le> q div 2 ^ (L - p) \<and> q div 2 ^ (L - p) < (2::nat) ^ p"
proof -
  have e1: "(2::nat) ^ L = 2 ^ p * 2 ^ (L - p)" using pow2_split [of p L] assms(1) by simp
  have "p - 1 \<le> L - 1" using assms by simp
  from pow2_split [OF this] have e2: "(2::nat) ^ (L - 1) = 2 ^ (p - 1) * 2 ^ (L - p)"
    using assms(1,2) by simp
  have "q div 2 ^ (L - p) < 2 ^ p"
    using assms(4) e1 by (simp add: less_mult_imp_div_less)
  moreover have "2 ^ (p - 1) * 2 ^ (L - p) div 2 ^ (L - p) \<le> q div 2 ^ (L - p)"
    using assms(3) e2 by (metis div_le_mono)
  then have "2 ^ (p - 1) \<le> q div 2 ^ (L - p)" by simp
  ultimately show ?thesis by simp
qed

lemma f64_round_normal:
  assumes "0 < q"
  shows "f64_normal (f64_round q s e)"
proof -
  let ?L = "bitlen q"
  from bitlen_bounds [OF assms] have lo: "2 ^ (?L - 1) \<le> q" and hi: "q < 2 ^ ?L" by auto
  have Lpos: "0 < ?L" using assms by (rule bitlen_pos)
  show ?thesis
  proof (cases "?L \<le> 53")
    case True
    from scale_up_bounds [OF Lpos True lo hi]
    show ?thesis using True assms by (simp add: f64_round_def f64_normal_def Let_def)
  next
    case False
    then have "53 < ?L" by simp
    from scale_down_bounds [OF this _ lo hi]
    have "2 ^ 52 \<le> q div 2 ^ (?L - 53)" "q div 2 ^ (?L - 53) < 2 ^ 53" by simp_all
    then have "2 ^ 52 \<le> round_even q (?L - 53) s" "round_even q (?L - 53) s \<le> 2 ^ 53"
      using round_even_bounds [of q "?L - 53" s] by auto
    then show ?thesis using False assms
      by (auto simp: f64_round_def f64_normal_def Let_def)
  qed
qed

lemma float64_of_uint64_normal: "w \<noteq> 0 \<Longrightarrow> f64_normal (float64_of_uint64 w)"
  unfolding float64_of_uint64_def by (rule f64_round_normal) (simp add: unat_gt_0)

lemma f64_div_normal:
  assumes "f64_normal a" "f64_normal b"
  shows "f64_normal (f64_div a b)"
proof -
  from assms obtain ma ea mb eb where a: "a = Fin ma ea" and b: "b = Fin mb eb"
    and ma: "2 ^ 52 \<le> ma" and mb: "2 ^ 52 \<le> mb" "mb < 2 ^ 53"
    by (auto simp: f64_normal_def split: f64.splits)
  have "mb \<le> ma * 2 ^ 55" using ma mb by simp
  then have "0 < ma * 2 ^ 55 div mb" using mb(1) by (simp add: div_greater_zero_iff)
  from f64_round_normal [OF this] show ?thesis
    using a b ma mb by (simp add: Let_def)
qed

lemma f64_one_normal: "f64_normal f64_one"
  by (simp add: f64_normal_def f64_one_def)

lemma scalingRatio_of_normal: "f64_normal (scalingRatio_of h)"
  by (simp add: scalingRatio_of_def f64_one_normal f64_div_normal float64_of_uint64_normal)

lemma f64_normal_nonzero: "f64_normal x \<Longrightarrow> f64_nonzero x"
  by (cases x) (auto simp: f64_normal_def)

subsection \<open>Rounding: the error is at most half a unit in the last place\<close>

text \<open>
  The model rounds to nearest: a conversion and a quotient differ from the exact number by
  at most \<open>2 ^ -53\<close> of it, and small integers convert exactly.
\<close>

lemma f64_val_Fin: "f64_val (Fin m e) = of_nat m * 2 powi e"
  by (cases "0 \<le> e") (simp_all add: f64_val_def power_int_def power_one_over)

lemma round_even_error:
  fixes eps :: rat
  assumes "0 < d" "0 \<le> eps" "eps < 1" "s \<longleftrightarrow> 0 < eps"
  shows "\<bar>of_nat (round_even q d s) * 2 ^ d - (of_nat q + eps)\<bar> \<le> 2 ^ (d - 1)"
proof -
  define hi lo H where "hi = q div 2 ^ d" and "lo = q mod 2 ^ d" and "H = (2::nat) ^ (d - 1)"
  have HH: "(2::nat) ^ d = 2 * H" using assms(1) by (cases d) (simp_all add: H_def)
  have q: "q = hi * (2 * H) + lo"
    unfolding hi_def lo_def HH [symmetric] by (rule div_mult_mod_eq [symmetric])
  have lo: "lo < 2 * H" unfolding lo_def HH [symmetric] by simp
  define h x l :: rat where "h = of_nat H" and "x = of_nat hi" and "l = of_nat lo"
  have qr: "(of_nat q :: rat) = x * (2 * h) + l"
    by (subst q) (simp add: h_def x_def l_def)
  have p1: "(2::rat) ^ (d - 1) = h" by (simp add: h_def H_def)
  have p2: "(2::rat) ^ d = 2 * h"
    using HH by (metis h_def of_nat_mult of_nat_numeral of_nat_power)
  have l2: "l < 2 * h" "0 \<le> l"
    using lo unfolding l_def h_def by (metis of_nat_less_iff of_nat_mult of_nat_numeral) simp
  have R: "\<And>t. round_even q d t =
           (if H < lo then hi + 1 else if lo < H then hi else if t then hi + 1
            else if hi mod 2 = 1 then hi + 1 else hi)"
    by (simp add: round_even_def Let_def hi_def lo_def H_def)
  let ?D = "of_nat (round_even q d s) * (2 * h) - (x * (2 * h) + l + eps)"
  consider (a) "H < lo" | (b) "lo < H" | (c) "lo = H" by linarith
  then have "\<bar>?D\<bar> \<le> h"
  proof cases
    case a
    then have "h + 1 \<le> l" unfolding h_def l_def
      by (metis Suc_eq_plus1 Suc_leI of_nat_1 of_nat_add of_nat_le_iff)
    moreover have "of_nat (round_even q d s) = x + 1" using a by (simp add: R x_def)
    then have "?D = 2 * h - l - eps" by (simp add: algebra_simps)
    ultimately show ?thesis using l2 assms(2,3) by linarith
  next
    case b
    then have "l + 1 \<le> h" unfolding h_def l_def
      by (metis Suc_eq_plus1 Suc_leI of_nat_1 of_nat_add of_nat_le_iff)
    moreover have "of_nat (round_even q d s) = x" using b by (simp add: R x_def)
    then have "?D = - l - eps" by (simp add: algebra_simps)
    ultimately show ?thesis using l2 assms(2,3) by linarith
  next
    case c
    then have lh: "l = h" by (simp add: l_def h_def)
    have h0: "1 \<le> h" by (simp add: h_def H_def)
    show ?thesis
    proof (cases s)
      case True
      then have "of_nat (round_even q d s) = x + 1" using c by (simp add: R x_def)
      then have "?D = h - eps" by (simp add: lh algebra_simps)
      then show ?thesis using h0 assms(2,3) by linarith
    next
      case False
      then have e0: "eps = 0" using assms(2,4) by simp
      have "of_nat (round_even q d s) = x + 1 \<or> of_nat (round_even q d s) = x"
        using c False by (simp add: R x_def)
      then have "?D = h \<or> ?D = - h" by (auto simp: lh e0 algebra_simps)
      then show ?thesis using h0 by linarith
    qed
  qed
  then show ?thesis unfolding qr p1 p2 .
qed

lemma bitlen_le_iff: "0 < q \<Longrightarrow> q < 2 ^ k \<Longrightarrow> bitlen q \<le> k"
proof -
  assume q: "0 < q" "q < 2 ^ k"
  from bitlen_bounds [OF q(1)] have "(2::nat) ^ (bitlen q - 1) < 2 ^ k" using q(2) by linarith
  then have "bitlen q - 1 < k" by (simp add: power_strict_increasing_iff)
  then show ?thesis by simp
qed

lemma bitlen_gt_iff: "2 ^ k \<le> q \<Longrightarrow> k < bitlen q"
proof -
  assume q: "2 ^ k \<le> q"
  then have "0 < q" by (metis not_gr_zero not_less zero_less_numeral zero_less_power le_zero_eq)
  from bitlen_bounds [OF this] have "(2::nat) ^ k < 2 ^ bitlen q" using q by linarith
  then show ?thesis by (simp add: power_strict_increasing_iff)
qed

lemma f64_round_exact:
  assumes "bitlen q \<le> 53"
  shows "f64_val (f64_round q s e) = of_nat q * 2 powi e"
proof (cases "q = 0")
  case True
  then show ?thesis by (simp add: f64_round_def f64_val_Fin)
next
  case False
  have "(2::rat) powi (e - int (53 - bitlen q)) = 2 powi e / 2 ^ (53 - bitlen q)"
    by (simp add: power_int_diff)
  then show ?thesis using False assms
    by (simp add: f64_round_def Let_def f64_val_Fin)
qed

lemma f64_round_error:
  fixes eps :: rat
  assumes "53 < bitlen q" "0 \<le> eps" "eps < 1" "s \<longleftrightarrow> 0 < eps"
  shows "\<bar>f64_val (f64_round q s e) - (of_nat q + eps) * 2 powi e\<bar>
         \<le> (of_nat q + eps) * 2 powi e / 2 ^ 53"
proof -
  define d where "d = bitlen q - 53"
  define m where "m = round_even q d s"
  have d: "0 < d" using assms(1) by (simp add: d_def)
  have q0: "0 < q" using assms(1) by (cases "q = 0") (simp_all add: bitlen.simps)
  have P: "0 < (2::rat) powi e" by simp
  have v: "f64_val (f64_round q s e) = of_nat m * 2 ^ d * 2 powi e"
  proof (cases "m = 2 ^ 53")
    case True
    have "f64_round q s e = Fin (2 ^ 52) (e + int d + 1)"
      using True q0 assms(1) by (simp add: f64_round_def Let_def d_def m_def)
    moreover have "(2::rat) powi (e + int d + 1) = 2 powi e * 2 ^ d * 2"
      by (simp add: power_int_add)
    ultimately show ?thesis using True by (simp add: f64_val_Fin)
  next
    case False
    have "f64_round q s e = Fin m (e + int d)"
      using False q0 assms(1) by (simp add: f64_round_def Let_def d_def m_def)
    moreover have "(2::rat) powi (e + int d) = 2 powi e * 2 ^ d"
      by (simp add: power_int_add)
    ultimately show ?thesis by (simp add: f64_val_Fin)
  qed
  have r: "\<bar>of_nat m * 2 ^ d - (of_nat q + eps)\<bar> \<le> 2 ^ (d - 1)"
    unfolding m_def by (rule round_even_error [OF d assms(2,3,4)])
  have "\<bar>f64_val (f64_round q s e) - (of_nat q + eps) * 2 powi e\<bar>
        = \<bar>(of_nat m * 2 ^ d - (of_nat q + eps)) * 2 powi e\<bar>"
    unfolding v by (simp only: left_diff_distrib)
  also have "\<dots> = \<bar>of_nat m * 2 ^ d - (of_nat q + eps)\<bar> * 2 powi e"
    using P by (intro abs_mult_pos [symmetric]) (rule less_imp_le)
  also have "\<dots> \<le> 2 ^ (d - 1) * 2 powi e"
    using r P by (intro mult_right_mono) (simp_all only: less_imp_le)
  finally have e1: "\<bar>f64_val (f64_round q s e) - (of_nat q + eps) * 2 powi e\<bar>
                    \<le> 2 ^ (d - 1) * 2 powi e" .
  have "(2::rat) ^ (d - 1) \<le> (of_nat q + eps) / 2 ^ 53"
  proof -
    have "(2::nat) ^ (d - 1) * 2 ^ 53 = 2 ^ (bitlen q - 1)"
      using assms(1) unfolding d_def power_add [symmetric] by simp
    also have "\<dots> \<le> q" using bitlen_bounds [OF q0] by simp
    finally have "of_nat ((2::nat) ^ (d - 1) * 2 ^ 53) \<le> (of_nat q :: rat)"
      by (simp only: of_nat_le_iff)
    then have "(2::rat) ^ (d - 1) * 2 ^ 53 \<le> of_nat q + eps" using assms(2) by simp
    then show ?thesis by (simp add: pos_le_divide_eq)
  qed
  then have "(2::rat) ^ (d - 1) * 2 powi e \<le> (of_nat q + eps) / 2 ^ 53 * 2 powi e"
    using P by (intro mult_right_mono) (simp_all only: less_imp_le)
  also have "\<dots> = (of_nat q + eps) * 2 powi e / 2 ^ 53"
    by (simp only: times_divide_eq_left)
  finally show ?thesis using e1 by (rule order_trans [rotated])
qed


lemma float64_of_uint64_exact:
  assumes "unat w < 2 ^ 53"
  shows "f64_val (float64_of_uint64 w) = of_nat (unat w)"
proof (cases "unat w = 0")
  case True
  then show ?thesis by (simp add: float64_of_uint64_def f64_round_def f64_val_Fin)
next
  case False
  then have "bitlen (unat w) \<le> 53" using assms by (intro bitlen_le_iff) simp_all
  from f64_round_exact [OF this, of False 0] show ?thesis
    by (simp add: float64_of_uint64_def)
qed

lemma f64_round_integer_error:
  "\<bar>f64_val (f64_round q False 0) - of_nat q\<bar> \<le> of_nat q / 2 ^ 53"
proof (cases "bitlen q \<le> 53")
  case True
  from f64_round_exact [OF this, of False 0] show ?thesis by simp
next
  case False
  then have "53 < bitlen q" by simp
  from f64_round_error [OF this, of 0 False 0] show ?thesis by simp
qed

lemma float64_of_uint64_error:
  "\<bar>f64_val (float64_of_uint64 w) - of_nat (unat w)\<bar> \<le> of_nat (unat w) / 2 ^ 53"
  unfolding float64_of_uint64_def by (rule f64_round_integer_error)

lemma f64_div_error:
  assumes "f64_normal a" "f64_normal b"
  shows "\<bar>f64_val (f64_div a b) - f64_val a / f64_val b\<bar> \<le> f64_val a / f64_val b / 2 ^ 53"
proof -
  from assms obtain ma ea mb eb where a: "a = Fin ma ea" and b: "b = Fin mb eb"
    and ma: "2 ^ 52 \<le> ma" and mb: "2 ^ 52 \<le> mb" "mb < 2 ^ 53"
    by (auto simp: f64_normal_def split: f64.splits)
  define n where "n = ma * 2 ^ 55"
  define eps :: rat where "eps = of_nat (n mod mb) / of_nat mb"
  have mb0: "0 < mb" using mb(1) by (cases "mb = 0") simp_all
  have ma0: "0 < ma" using ma by (cases "ma = 0") simp_all
  have mbr: "(0::rat) < of_nat mb" using mb0 by simp
  have e0: "0 \<le> eps" by (simp add: eps_def)
  have e1: "eps < 1" using mb0 by (simp add: eps_def)
  have es: "(0 < n mod mb) \<longleftrightarrow> 0 < eps"
    using mb0 by (simp add: eps_def zero_less_divide_iff)
  have "n = n div mb * mb + n mod mb" by simp
  then have "(of_nat n :: rat) = of_nat (n div mb) * of_nat mb + of_nat (n mod mb)"
    by (metis of_nat_add of_nat_mult)
  then have ex: "of_nat (n div mb) + eps = (of_nat n :: rat) / of_nat mb"
    using mbr by (simp add: eps_def field_simps)
  have "2 ^ 54 * mb \<le> n" using ma mb(2) unfolding n_def by simp
  then have "2 ^ 54 \<le> n div mb" using mb0 by (simp add: less_eq_div_iff_mult_less_eq)
  then have L: "53 < bitlen (n div mb)" using bitlen_gt_iff [of 54 "n div mb"] by simp
  have d: "f64_div a b = f64_round (n div mb) (0 < n mod mb) (ea - eb - 55)"
    using a b ma0 mb0 by (simp add: n_def Let_def)
  have p: "(2::rat) powi (ea - eb - 55) = 2 powi ea / 2 powi eb / 2 ^ 55"
    by (simp add: power_int_diff)
  have nn: "(of_nat n :: rat) = of_nat ma * 2 ^ 55" by (simp add: n_def)
  have c: "A * K / B * (C / D / K) = A * C / (B * D)" if "K \<noteq> 0" for A B C D K :: rat
    using that by simp
  have "(of_nat (n div mb) + eps) * 2 powi (ea - eb - 55)
        = of_nat ma * 2 ^ 55 / of_nat mb * ((2::rat) powi ea / 2 powi eb / 2 ^ 55)"
    by (simp only: ex nn p)
  also have "\<dots> = (of_nat ma * 2 powi ea) / (of_nat mb * 2 powi eb)"
    by (rule c) simp
  finally have "(of_nat (n div mb) + eps) * 2 powi (ea - eb - 55)
                = (of_nat ma * 2 powi ea) / (of_nat mb * 2 powi eb)" .
  then have v: "(of_nat (n div mb) + eps) * 2 powi (ea - eb - 55) = f64_val a / f64_val b"
    by (simp add: a b f64_val_Fin)
  from f64_round_error [OF L e0 e1 es, of "ea - eb - 55"] show ?thesis
    unfolding d v .
qed

lemma f64_normal_val_pos: "f64_normal x \<Longrightarrow> 0 < f64_val x"
  by (cases x) (auto simp: f64_normal_def f64_val_Fin intro!: mult_pos_pos)


lemma f64_round_expo:
  assumes "0 < q"
  shows "e + int (bitlen q) - 53 \<le> expo (f64_round q s e)
         \<and> expo (f64_round q s e) \<le> e + int (bitlen q) - 52"
  using assms by (simp add: f64_round_def Let_def)

lemma float64_of_uint64_expo:
  assumes "w \<noteq> 0"
  shows "- 52 \<le> expo (float64_of_uint64 w) \<and> expo (float64_of_uint64 w) \<le> 12"
proof -
  have q: "0 < unat w" using assms by (simp add: unat_gt_0)
  have "unat w < 2 ^ 64" using unsigned_less [of w] by simp
  from bitlen_le_iff [OF q this] have "bitlen (unat w) \<le> 64" .
  moreover have "0 < bitlen (unat w)" using q by (rule bitlen_pos)
  ultimately show ?thesis
    using f64_round_expo [OF q, of 0 False] unfolding float64_of_uint64_def by linarith
qed

lemma f64_div_expo:
  assumes "f64_normal a" "f64_normal b"
  shows "expo a - expo b - 53 \<le> expo (f64_div a b)
         \<and> expo (f64_div a b) \<le> expo a - expo b - 51"
proof -
  from assms obtain ma ea mb eb where a: "a = Fin ma ea" and b: "b = Fin mb eb"
    and ma: "2 ^ 52 \<le> ma" "ma < 2 ^ 53" and mb: "2 ^ 52 \<le> mb" "mb < 2 ^ 53"
    by (auto simp: f64_normal_def split: f64.splits)
  define n where "n = ma * 2 ^ 55"
  have mb0: "0 < mb" using mb(1) by (cases "mb = 0") simp_all
  have ma0: "0 < ma" using ma by (cases "ma = 0") simp_all
  have "2 ^ 54 * mb \<le> n" using ma mb(2) unfolding n_def by simp
  then have lo: "2 ^ 54 \<le> n div mb" using mb0 by (simp add: less_eq_div_iff_mult_less_eq)
  then have q0: "0 < n div mb" by simp
  have "n < 2 ^ 56 * mb" using ma(2) mb(1) unfolding n_def by simp
  then have hi: "n div mb < 2 ^ 56" by (simp add: less_mult_imp_div_less)
  have "54 < bitlen (n div mb)" using bitlen_gt_iff [OF lo] .
  moreover have "bitlen (n div mb) \<le> 56" using bitlen_le_iff [OF q0 hi] .
  moreover have "f64_div a b = f64_round (n div mb) (0 < n mod mb) (ea - eb - 55)"
    using a b ma0 mb0 by (simp add: n_def Let_def)
  ultimately show ?thesis
    using f64_round_expo [OF q0, of "ea - eb - 55" "0 < n mod mb"] by (simp add: a b)
qed

subsection \<open>The floats of getPerfValues\<close>

text \<open>
  Every float \<open>getPerfValues\<close> computes is zero or a normal binary64 number, so the
  restriction of the model to such numbers loses nothing.
\<close>

lemma float64_of_uint64_binary64: "f64_binary64 (float64_of_uint64 w)"
proof (cases "w = 0")
  case True
  then show ?thesis by (simp add: float64_of_uint64_def f64_round_def f64_binary64_def)
next
  case False
  from float64_of_uint64_normal [OF False] float64_of_uint64_expo [OF False]
  show ?thesis by (cases "float64_of_uint64 w") (auto simp: f64_normal_def f64_binary64_def)
qed

lemma scalingRatio_of_expo:
  "- 117 \<le> expo (scalingRatio_of h) \<and> expo (scalingRatio_of h) \<le> 13"
proof (cases "TimeRunning h = 0 \<or> TimeEnabled h = 0")
  case True
  then show ?thesis by (auto simp: scalingRatio_of_def f64_one_def)
next
  case False
  then have r: "TimeRunning h \<noteq> 0" and e: "TimeEnabled h \<noteq> 0" by simp_all
  from f64_div_expo [OF float64_of_uint64_normal [OF r] float64_of_uint64_normal [OF e]]
    float64_of_uint64_expo [OF r] float64_of_uint64_expo [OF e]
  show ?thesis using r e by (simp add: scalingRatio_of_def)
qed

lemma scalingRatio_of_binary64: "f64_binary64 (scalingRatio_of h)"
  using scalingRatio_of_normal [of h] scalingRatio_of_expo [of h]
  by (cases "scalingRatio_of h") (auto simp: f64_normal_def f64_binary64_def)

lemma corrected_quotient_binary64:
  "f64_binary64 (f64_div (float64_of_uint64 v) (scalingRatio_of h))"
proof (cases "v = 0")
  case True
  then show ?thesis using scalingRatio_of_normal [of h]
    by (cases "scalingRatio_of h")
       (auto simp: float64_of_uint64_def f64_round_def f64_normal_def f64_binary64_def)
next
  case False
  let ?q = "f64_div (float64_of_uint64 v) (scalingRatio_of h)"
  from f64_div_expo [OF float64_of_uint64_normal [OF False] scalingRatio_of_normal [of h]]
    float64_of_uint64_expo [OF False] scalingRatio_of_expo [of h]
  have "- 118 \<le> expo ?q \<and> expo ?q \<le> 78" by linarith
  moreover have "f64_normal ?q"
    by (rule f64_div_normal [OF float64_of_uint64_normal [OF False] scalingRatio_of_normal])
  ultimately show ?thesis by (cases ?q) (auto simp: f64_normal_def f64_binary64_def)
qed

text \<open>
  With both times below \<open>2 ^ 53\<close> nanoseconds (104 days) the conversions are exact, and the
  ratio is the quotient of the times rounded once.
\<close>

lemma scalingRatio_of_accuracy:
  assumes "TimeRunning h \<noteq> 0" "TimeEnabled h \<noteq> 0"
    and "unat (TimeRunning h) < 2 ^ 53" "unat (TimeEnabled h) < 2 ^ 53"
  shows "\<bar>f64_val (scalingRatio_of h)
          - of_nat (unat (TimeRunning h)) / of_nat (unat (TimeEnabled h))\<bar>
         \<le> of_nat (unat (TimeRunning h)) / of_nat (unat (TimeEnabled h)) / 2 ^ 53"
proof -
  from f64_div_error [OF float64_of_uint64_normal [OF assms(1)]
                         float64_of_uint64_normal [OF assms(2)]]
  show ?thesis
    unfolding float64_of_uint64_exact [OF assms(3)] float64_of_uint64_exact [OF assms(4)]
    using assms(1,2) by (simp only: scalingRatio_of_def if_False)
qed

section \<open>Properties of the decoders\<close>

lemma enc_le_numeral:
  "enc_le (numeral k) n = of_nat (n mod 256) # enc_le (pred_numeral k) (n div 256)"
  using enc_le.simps(2) [of "pred_numeral k" n] by (simp only: numeral_eq_Suc [symmetric])

lemma decode_Values_numeral:
  "decode_Values (numeral k) d =
     \<lparr>Values.Value = le_uint64 d, ID = le_uint64 (drop 8 d)\<rparr> # decode_Values (pred_numeral k) (drop 16 d)"
  using decode_Values.simps(2) [of "pred_numeral k" d] by (simp only: numeral_eq_Suc [symmetric])

lemma length_enc_le [simp]: "length (enc_le k n) = k"
  by (induction k arbitrary: n) auto

lemma le_nat_enc_le: "le_nat (enc_le k n) = n mod 256 ^ k"
proof (induction k arbitrary: n)
  case 0 show ?case by simp
next
  case (Suc k)
  show ?case by (simp add: Suc unat_of_nat mod_mult2_eq)
qed

lemma length_enc_uint64 [simp]: "length (enc_uint64 w) = 8"
  by (simp add: enc_uint64_def)

lemma le_uint64_enc [simp]: "le_uint64 (enc_uint64 w @ rest) = w"
proof -
  have "unat w < 256 ^ 8" using unsigned_less [of w] by simp
  then show ?thesis by (simp add: le_uint64_def enc_uint64_def le_nat_enc_le)
qed

lemma le_uint64_enc_only [simp]: "le_uint64 (enc_uint64 w) = w"
  using le_uint64_enc [of w "[]"] by simp

lemma length_read_into_buf [simp]: "length (fst (read_into_buf file n)) = n"
  by (auto simp: read_into_buf_def split: prod.splits)

lemma fill_perfValues_Ok:
  "fill_perfValues mk vals nms i pv = Ok out \<Longrightarrow>
   out = take i pv @ map (\<lambda>(v, n). mk v n) (zip (drop i vals) nms) @ drop (i + length nms) pv
   \<and> (nms \<noteq> [] \<longrightarrow> i + length nms \<le> length vals \<and> i + length nms \<le> length pv)"
proof (induction nms arbitrary: i pv)
  case Nil
  then show ?case by simp
next
  case (Cons n rest)
  from Cons.prems have iv: "i < length vals" and ip: "i < length pv"
    and rec: "fill_perfValues mk vals rest (Suc i) (pv[i := mk (vals ! i) n]) = Ok out"
    by (auto split: if_splits)
  from Cons.IH [OF rec] have
    out: "out = take (Suc i) (pv[i := mk (vals ! i) n])
            @ map (\<lambda>(v, n). mk v n) (zip (drop (Suc i) vals) rest)
            @ drop (Suc i + length rest) (pv[i := mk (vals ! i) n])"
    and len: "rest \<noteq> [] \<longrightarrow> Suc i + length rest \<le> length vals \<and> Suc i + length rest \<le> length pv"
    by auto
  have t: "take (Suc i) (pv[i := mk (vals ! i) n]) = take i pv @ [mk (vals ! i) n]"
    using ip by (simp add: take_Suc_conv_app_nth)
  have d: "drop i vals = vals ! i # drop (Suc i) vals"
    using iv by (simp add: Cons_nth_drop_Suc)
  show ?case using out len iv ip by (cases rest) (auto simp: t d)
qed


lemma length_decode_Values [simp]: "length (decode_Values n d) = n"
  by (induction n arbitrary: d) auto

lemma getPerfValues_Ok:
  assumes ok: "getPerfValues impl file grp = Ok out"
  shows "\<exists>buf perfData.
     read_into_buf file (24 + 16 * length (names grp)) = (buf, None)
     \<and> binary_Read_GroupReadFormat (take 24 buf) = Inr perfData
     \<and> unat (Nr perfData) = length (names grp)
     \<and> out = map (\<lambda>(v, n). perfValue_of impl (scalingRatio_of perfData) v n)
                 (zip (decode_Values (length (names grp)) (drop 24 buf)) (names grp))"
proof -
  let ?n = "length (names grp)"
  obtain buf err where rd: "read_into_buf file (24 + 16 * ?n) = (buf, err)"
    by (cases "read_into_buf file (24 + 16 * ?n)")
  have lb: "length buf = 24 + 16 * ?n"
    using length_read_into_buf [of "file" "24 + 16 * ?n"] rd by simp
  from ok rd have e: "err = None"
    by (auto simp: getPerfValues_def Let_def split: if_splits option.splits)
  from ok rd e obtain perfData where hd: "binary_Read_GroupReadFormat (take 24 buf) = Inr perfData"
    by (auto simp: getPerfValues_def Let_def split: if_splits sum.splits)
  let ?N = "unat (Nr perfData)"
  from ok rd e hd obtain vals where
    vs: "binary_Read_Values ?N (drop 24 buf) = Inr vals"
    by (auto simp: getPerfValues_def Let_def split: if_splits sum.splits)
  have vdef: "vals = decode_Values ?N (take (16 * ?N) (drop 24 buf))" and le: "?N \<le> ?n"
    using vs lb by (auto simp: binary_Read_Values_def io_ReadFull_def split: if_splits)
  let ?r = "scalingRatio_of perfData"
  from ok rd e hd vs have
    fill: "fill_perfValues (\<lambda>v n. perfValue_of impl ?r v n) vals (names grp) 0
             (replicate ?N zero_PerfValue) = Ok out"
    by (auto simp: getPerfValues_def Let_def perfValue_of_def split: if_splits)
  from fill_perfValues_Ok [OF fill] have
    o: "out = map (\<lambda>(v, n). perfValue_of impl ?r v n) (zip vals (names grp))
              @ drop ?n (replicate ?N zero_PerfValue)"
    and ge: "names grp \<noteq> [] \<longrightarrow> ?n \<le> length vals"
    by auto
  have eq: "?N = ?n"
  proof (cases "names grp = []")
    case True then show ?thesis using le by simp
  next
    case False then show ?thesis using ge le vdef by simp
  qed
  have "take (16 * ?n) (drop 24 buf) = drop 24 buf"
    using lb by simp
  then show ?thesis using rd e hd eq o vdef by auto
qed


lemma fill_perfValues_total:
  "i + length nms \<le> length vals \<Longrightarrow> i + length nms \<le> length pv \<Longrightarrow>
   fill_perfValues mk vals nms i pv =
     Ok (take i pv @ map (\<lambda>(v, n). mk v n) (zip (drop i vals) nms) @ drop (i + length nms) pv)"
proof (induction nms arbitrary: i pv)
  case Nil
  then show ?case by simp
next
  case (Cons n rest)
  have iv: "i < length vals" and ip: "i < length pv" using Cons.prems by auto
  have t: "take (Suc i) (pv[i := mk (vals ! i) n]) = take i pv @ [mk (vals ! i) n]"
    using ip by (simp add: take_Suc_conv_app_nth)
  have d: "drop i vals = vals ! i # drop (Suc i) vals"
    using iv by (simp add: Cons_nth_drop_Suc)
  have "fill_perfValues mk vals (n # rest) i pv =
        fill_perfValues mk vals rest (Suc i) (pv[i := mk (vals ! i) n])"
    using iv ip by simp
  also have "\<dots> = Ok (take (Suc i) (pv[i := mk (vals ! i) n])
            @ map (\<lambda>(v, n). mk v n) (zip (drop (Suc i) vals) rest)
            @ drop (Suc i + length rest) (pv[i := mk (vals ! i) n]))"
    using Cons.prems by (intro Cons.IH) auto
  finally show ?case by (simp add: t d)
qed

lemma length_enc_Values [simp]: "length (enc_Values vs) = 16 * length vs"
  by (induction vs) auto

lemma decode_enc_Values [simp]: "decode_Values (length vs) (enc_Values vs @ rest) = vs"
  by (induction vs) auto

lemma getPerfValues_of_group_read:
  assumes len: "length vs = length (names grp)"
    and nr: "unat (Nr h) = length (names grp)"
    and small: "32 * length (names grp) + 24 \<le> maxAlloc"
  shows "getPerfValues impl (file_of_bytes (enc_group_read h vs)) grp =
           Ok (map (\<lambda>(v, n). perfValue_of impl (scalingRatio_of h) v n) (zip vs (names grp)))"
proof -
  let ?n = "length (names grp)"
  let ?bs = "enc_group_read h vs"
  have lbs: "length ?bs = 24 + 16 * ?n" using len by (simp add: enc_group_read_def)
  have rd: "read_into_buf (file_of_bytes ?bs) (24 + 16 * ?n) = (?bs, None)"
    using lbs by (simp add: read_into_buf_def file_of_bytes_def)
  have hd: "binary_Read_GroupReadFormat (take 24 ?bs) = Inr h"
    by (simp add: binary_Read_GroupReadFormat_def io_ReadFull_def enc_group_read_def)
  have vs: "binary_Read_Values ?n (drop 24 ?bs) = Inr vs"
    using len decode_enc_Values [of vs "[]"]
    by (simp add: binary_Read_Values_def io_ReadFull_def enc_group_read_def)
  have fill: "fill_perfValues (\<lambda>v n. perfValue_of impl (scalingRatio_of h) v n) vs (names grp) 0
               (replicate ?n zero_PerfValue)
             = Ok (map (\<lambda>(v, n). perfValue_of impl (scalingRatio_of h) v n) (zip vs (names grp)))"
    using fill_perfValues_total [of 0 "names grp" vs "replicate ?n zero_PerfValue"
            "\<lambda>v n. perfValue_of impl (scalingRatio_of h) v n"] len
    by simp
  have ms: "makeslice_ok 1 (24 + 16 * ?n)" "makeslice_ok 16 ?n" "makeslice_ok 32 ?n"
    using small by (simp_all add: makeslice_ok_def)
  show ?thesis
    using rd hd vs fill ms nr
    by (auto simp: getPerfValues_def Let_def perfValue_of_def)
qed

section \<open>Properties of getPerfValues\<close>

lemma f64_trunc_floor: "f64_trunc (Fin m e) = Some (nat \<lfloor>f64_val (Fin m e)\<rfloor>)"
proof (cases "0 \<le> e")
  case True
  have "f64_val (Fin m e) = of_nat (m * 2 ^ nat e)" using True by (simp add: f64_val_def)
  then show ?thesis using True by (simp only: f64_trunc.simps floor_of_nat nat_int if_True)
next
  case False
  have "f64_val (Fin m e) = of_nat m / of_nat (2 ^ nat (- e))"
    using False by (simp add: f64_val_def)
  then have "\<lfloor>f64_val (Fin m e)\<rfloor> = int (m div 2 ^ nat (- e))"
    by (simp only: floor_divide_of_nat_eq)
  then show ?thesis using False by simp
qed

lemma f64_div_Fin:
  "0 < mb \<Longrightarrow> \<exists>m e. f64_div (Fin ma ea) (Fin mb eb) = Fin m e"
  by (simp add: f64_round_def Let_def)

lemma float64_of_uint64_Fin: "\<exists>m e. float64_of_uint64 w = Fin m e"
  by (simp add: float64_of_uint64_def f64_round_def Let_def)

lemma uint64_of_float64_floor:
  assumes "x = Fin m e" "\<lfloor>f64_val x\<rfloor> < 2 ^ 64"
  shows "uint (uint64_of_float64 impl x) = \<lfloor>f64_val x\<rfloor>"
proof -
  have nn: "0 \<le> \<lfloor>f64_val x\<rfloor>" using assms(1) by (simp add: f64_val_def)
  then have lt: "nat \<lfloor>f64_val x\<rfloor> < 2 ^ 64" using assms(2) by (simp add: nat_less_iff)
  have "uint64_of_float64 impl x = of_nat (nat \<lfloor>f64_val x\<rfloor>)"
    using lt assms(1) by (simp add: uint64_of_float64_def f64_trunc_floor del: f64_trunc.simps)
  moreover have "uint (of_nat (nat \<lfloor>f64_val x\<rfloor>) :: 64 word) = int (nat \<lfloor>f64_val x\<rfloor>)"
    using lt by (simp add: uint_nat unat_of_nat take_bit_nat_eq_self)
  ultimately show ?thesis using nn by simp
qed

subsection \<open>Evaluation on the scenarios\<close>

lemma read_file_of_bytes:
  "length bs = n \<Longrightarrow> read_into_buf (file_of_bytes bs) n = (bs, None)"
  by (simp add: read_into_buf_def file_of_bytes_def)

lemma header_of_group_read:
  "binary_Read_GroupReadFormat (take 24 (enc_group_read h vs)) = Inr h"
  by (simp add: binary_Read_GroupReadFormat_def io_ReadFull_def enc_group_read_def)

lemma values_of_group_read:
  "decode_Values (length vs) (drop 24 (enc_group_read h vs)) = vs"
  using decode_enc_Values [of vs "[]"] by (simp add: enc_group_read_def)

lemma length_enc_group_read [simp]: "length (enc_group_read h vs) = 24 + 16 * length vs"
  by (simp add: enc_group_read_def)

lemma getPerfValues_read_1000_0:
  "getPerfValues (\<lambda>x. 0) (file_of_bytes read_1000_0) (ex_group [''cycles''])
   = Ok [\<lparr>ScalingRatio = f64_one, Value = 100, Name = ''cycles''\<rparr>]"
  unfolding read_1000_0_def
  apply (subst getPerfValues_of_group_read)
     apply (simp_all add: ex_group_def maxAlloc_def)
  apply (simp add: perfValue_of_def scalingRatio_of_def f64_one_def float64_of_uint64_def
      f64_round_def bitlen.simps round_even_def uint64_of_float64_def)
  done

lemma getPerfValues_read_3_2:
  "getPerfValues (\<lambda>x. 0) (file_of_bytes read_3_2) (ex_group [''cycles''])
   = Ok [\<lparr>ScalingRatio = Fin 6004799503160661 (- 53), Value = 1, Name = ''cycles''\<rparr>]"
  unfolding read_3_2_def
  apply (subst getPerfValues_of_group_read)
     apply (simp_all add: ex_group_def maxAlloc_def)
  apply (simp add: perfValue_of_def scalingRatio_of_def float64_of_uint64_def
      f64_round_def bitlen.simps round_even_def uint64_of_float64_def)
  done

lemma getPerfValues_read_1000_500:
  "getPerfValues impl (file_of_bytes (read_1000_500 i1 i2 i3))
     \<lparr>group.cpuFiles = fs, names = [n1, n2, n3], leaderName = n1\<rparr>
   = Ok [\<lparr>ScalingRatio = Fin (2 ^ 52) (- 53), Value = 200, Name = n1\<rparr>,
         \<lparr>ScalingRatio = Fin (2 ^ 52) (- 53), Value = 400, Name = n2\<rparr>,
         \<lparr>ScalingRatio = Fin (2 ^ 52) (- 53), Value = 600, Name = n3\<rparr>]"
  unfolding read_1000_500_def
  apply (subst getPerfValues_of_group_read)
     apply (simp_all add: maxAlloc_def)
  apply (simp add: perfValue_of_def scalingRatio_of_def float64_of_uint64_def
      f64_round_def bitlen.simps round_even_def uint64_of_float64_def)
  done

subsection \<open>The scaling ratio\<close>

text \<open>
  Claim C1, as amended.  For every group read that \<open>getPerfValues\<close> decodes, the ratio of
  every reported value is the \<open>float64\<close> quotient running time / enabled time when both
  times are non-zero, and the neutral value 1.0 when either of them is zero; in
  particular the ratio is 1.0, not 0, when the enabled time is positive and the running
  time is zero.
\<close>

theorem scalingRatio_unless_a_time_is_zero:
  assumes "getPerfValues impl file grp = Ok out"
    and "read_into_buf file (24 + 16 * length (names grp)) = (buf, err)"
    and "binary_Read_GroupReadFormat (take 24 buf) = Inr perfData"
  shows "list_all (\<lambda>v. ScalingRatio v =
            (if TimeRunning perfData \<noteq> 0 \<and> TimeEnabled perfData \<noteq> 0
             then f64_div (float64_of_uint64 (TimeRunning perfData))
                          (float64_of_uint64 (TimeEnabled perfData))
             else f64_one)) out"
proof -
  from getPerfValues_Ok [OF assms(1)] assms(2,3)
  have "out = map (\<lambda>(v, n). perfValue_of impl (scalingRatio_of perfData) v n)
                 (zip (decode_Values (length (names grp)) (drop 24 buf)) (names grp))"
    by auto
  then show ?thesis
    by (auto simp: list_all_iff perfValue_of_def scalingRatio_of_def)
qed

theorem scalingRatio_unless_a_time_is_zero_witness:
  "list_all (\<lambda>v. ScalingRatio v = f64_div (float64_of_uint64 2) (float64_of_uint64 3))
     [\<lparr>ScalingRatio = Fin 6004799503160661 (- 53), Value = 1, Name = ''cycles''\<rparr>]"
  using scalingRatio_unless_a_time_is_zero
          [OF getPerfValues_read_3_2, of read_3_2 None
             "\<lparr>Nr = 1, TimeEnabled = 3, TimeRunning = 2\<rparr>"]
        read_file_of_bytes [of read_3_2 40]
        header_of_group_read
          [of "\<lparr>Nr = 1, TimeEnabled = 3, TimeRunning = 2\<rparr>"
              "[\<lparr>Values.Value = 1, ID = 0\<rparr>]"]
  by (simp add: ex_group_def read_3_2_def)

text \<open>
  The claim as stated fails: with an enabled time of 1000 and a running time of 0 the
  reported ratio is 1.0, while running time / enabled time is 0.
\<close>

theorem scalingRatio_counterexample:
  "getPerfValues (\<lambda>x. 0) (file_of_bytes read_1000_0) (ex_group [''cycles''])
     = Ok [\<lparr>ScalingRatio = f64_one, Value = 100, Name = ''cycles''\<rparr>]
   \<and> f64_val f64_one = 1
   \<and> f64_val f64_one \<noteq> of_nat (unat (0 :: 64 word)) / of_nat (unat (1000 :: 64 word))"
  by (simp add: getPerfValues_read_1000_0 f64_val_def f64_one_def)

subsection \<open>The corrected value\<close>

text \<open>
  Claim C2, as amended.  For every decoded raw counter value, the reported value is the
  \<open>float64\<close> quotient raw value / ratio with its fraction discarded (truncated towards
  zero, not rounded to the nearest integer), whenever that integer is below \<open>2 ^ 64\<close>; the
  ratio that \<open>getPerfValues\<close> computes is never zero, so the branch that reports the raw
  value is not taken; the ratio is reported alongside every value, under the registered
  name of the event.
\<close>

theorem corrected_value_is_truncated_quotient:
  assumes ok: "getPerfValues impl file grp = Ok out"
    and rd: "read_into_buf file (24 + 16 * length (names grp)) = (buf, err)"
    and hd: "binary_Read_GroupReadFormat (take 24 buf) = Inr perfData"
    and k: "k < length (names grp)"
    and raw: "raw = Values.Value (decode_Values (length (names grp)) (drop 24 buf) ! k)"
    and q: "q = f64_div (float64_of_uint64 raw) (scalingRatio_of perfData)"
  shows "ScalingRatio (out ! k) = scalingRatio_of perfData
       \<and> f64_nonzero (scalingRatio_of perfData)
       \<and> PerfValue.Name (out ! k) = names grp ! k
       \<and> (\<lfloor>f64_val q\<rfloor> < 2 ^ 64 \<longrightarrow> uint (PerfValue.Value (out ! k)) = \<lfloor>f64_val q\<rfloor>)"
proof -
  let ?r = "scalingRatio_of perfData"
  let ?vals = "decode_Values (length (names grp)) (drop 24 buf)"
  from getPerfValues_Ok [OF ok] rd hd
  have out: "out = map (\<lambda>(v, n). perfValue_of impl ?r v n) (zip ?vals (names grp))"
    by auto
  have nz: "f64_nonzero ?r" by (rule f64_normal_nonzero [OF scalingRatio_of_normal])
  have el: "out ! k = perfValue_of impl ?r (?vals ! k) (names grp ! k)"
    using k by (simp add: out)
  obtain mb eb where r: "?r = Fin mb eb" and mb: "0 < mb"
    using scalingRatio_of_normal [of perfData]
    by (cases ?r) (auto simp: f64_normal_def)
  obtain ma ea where a: "float64_of_uint64 raw = Fin ma ea"
    using float64_of_uint64_Fin by blast
  obtain m e where qf: "q = Fin m e"
    using f64_div_Fin [OF mb, of ma ea eb] by (auto simp: q r a)
  have v: "PerfValue.Value (out ! k) = uint64_of_float64 impl q"
    using nz by (simp add: el perfValue_of_def q raw)
  have "ScalingRatio (out ! k) = ?r" "PerfValue.Name (out ! k) = names grp ! k"
    by (simp_all add: el perfValue_of_def)
  moreover have "\<lfloor>f64_val q\<rfloor> < 2 ^ 64 \<longrightarrow>
                 uint (PerfValue.Value (out ! k)) = \<lfloor>f64_val q\<rfloor>"
    using uint64_of_float64_floor [OF qf, of impl] by (simp only: v) blast
  ultimately show ?thesis using nz by blast
qed

theorem corrected_value_is_truncated_quotient_witness:
  "ScalingRatio ([\<lparr>ScalingRatio = Fin (2 ^ 52) (- 53), Value = 200, Name = ''a''\<rparr>,
         \<lparr>ScalingRatio = Fin (2 ^ 52) (- 53), Value = 400, Name = ''b''\<rparr>,
         \<lparr>ScalingRatio = Fin (2 ^ 52) (- 53), Value = 600, Name = ''c''\<rparr>] ! 1)
     = scalingRatio_of \<lparr>Nr = 3, TimeEnabled = 1000, TimeRunning = 500\<rparr>
   \<and> \<lfloor>f64_val (f64_div (float64_of_uint64 200)
                 (scalingRatio_of \<lparr>Nr = 3, TimeEnabled = 1000, TimeRunning = 500\<rparr>))\<rfloor> = 400
   \<and> uint (PerfValue.Value
         ([\<lparr>ScalingRatio = Fin (2 ^ 52) (- 53), Value = 200, Name = ''a''\<rparr>,
           \<lparr>ScalingRatio = Fin (2 ^ 52) (- 53), Value = 400, Name = ''b''\<rparr>,
           \<lparr>ScalingRatio = Fin (2 ^ 52) (- 53), Value = 600, Name = ''c''\<rparr>] ! 1)) = 400"
proof -
  let ?h = "\<lparr>Nr = 3, TimeEnabled = 1000, TimeRunning = 500\<rparr>"
  let ?vs = "[\<lparr>Values.Value = 100, ID = 0\<rparr>, \<lparr>Values.Value = 200, ID = 0\<rparr>,
              \<lparr>Values.Value = 300, ID = 0\<rparr>]"
  let ?g = "\<lparr>group.cpuFiles = [] :: (string \<times> (int \<times> unit) list) list,
             names = [''a'', ''b'', ''c''], leaderName = ''a''\<rparr>"
  have rd: "read_into_buf (file_of_bytes (read_1000_500 0 0 0)) (24 + 16 * length (names ?g))
            = (read_1000_500 0 0 0, None)"
    by (rule read_file_of_bytes) (simp add: read_1000_500_def)
  have hd: "binary_Read_GroupReadFormat (take 24 (read_1000_500 0 0 0)) = Inr ?h"
    unfolding read_1000_500_def by (rule header_of_group_read)
  have k: "1 < length (names ?g)" by simp
  have raw: "200 = Values.Value (decode_Values (length (names ?g)) (drop 24 (read_1000_500 0 0 0)) ! 1)"
    using values_of_group_read [of ?vs ?h] by (simp add: read_1000_500_def)
  have q: "\<lfloor>f64_val (f64_div (float64_of_uint64 200) (scalingRatio_of ?h))\<rfloor> = 400"
    by (simp add: scalingRatio_of_def float64_of_uint64_def f64_round_def bitlen.simps
          round_even_def f64_val_def)
  note ev = getPerfValues_read_1000_500
         [of "\<lambda>x. 0" 0 0 0 "[] :: (string \<times> (int \<times> unit) list) list" "''a''" "''b''" "''c''"]
  from corrected_value_is_truncated_quotient [OF ev rd hd k raw refl] q
  show ?thesis by simp
qed

text \<open>
  The claim as stated fails: with a raw value of 1, a running time of 2 and an enabled
  time of 3 the reported value is 1, while the raw value divided by the ratio, rounded,
  is 2 (for the reported ratio as for the exact ratio 2 / 3).
\<close>

theorem corrected_value_counterexample:
  "getPerfValues (\<lambda>x. 0) (file_of_bytes read_3_2) (ex_group [''cycles''])
     = Ok [\<lparr>ScalingRatio = Fin 6004799503160661 (- 53), Value = 1, Name = ''cycles''\<rparr>]
   \<and> round (of_nat (unat (1 :: 64 word)) / f64_val (Fin 6004799503160661 (- 53))) = (2 :: int)
   \<and> round ((of_nat (unat (1 :: 64 word)) :: rat)
             / (of_nat (unat (2 :: 64 word)) / of_nat (unat (3 :: 64 word)))) = (2 :: int)"
  by (simp add: getPerfValues_read_3_2 f64_val_def round_def floor_eq_iff)

section \<open>Properties of UpdateStats\<close>

lemma fill_perfValues_Panic:
  "length vals = N \<Longrightarrow> length pv = N \<Longrightarrow> i \<le> N \<Longrightarrow> N < i + length nms \<Longrightarrow>
   fill_perfValues mk vals nms i pv = Panic (IndexOutOfRange N N)"
proof (induction nms arbitrary: i pv)
  case Nil
  then show ?case by simp
next
  case (Cons n rest)
  show ?case
  proof (cases "i = N")
    case True
    then show ?thesis using Cons.prems by simp
  next
    case False
    then have "i < N" using Cons.prems by simp
    then show ?thesis using Cons.prems by (simp add: Cons.IH)
  qed
qed

lemma getPerfValues_Panic_count_below:
  assumes rd: "read_into_buf file (24 + 16 * length (names grp)) = (buf, None)"
    and hd: "binary_Read_GroupReadFormat (take 24 buf) = Inr h"
    and lt: "unat (Nr h) < length (names grp)"
    and small: "32 * length (names grp) + 24 \<le> maxAlloc"
  shows "getPerfValues impl file grp = Panic (IndexOutOfRange (unat (Nr h)) (unat (Nr h)))"
proof -
  let ?n = "length (names grp)"
  let ?N = "unat (Nr h)"
  have lb: "length buf = 24 + 16 * ?n"
    using length_read_into_buf [of "file" "24 + 16 * ?n"] rd by simp
  have vs: "binary_Read_Values ?N (drop 24 buf)
            = Inr (decode_Values ?N (take (16 * ?N) (drop 24 buf)))"
    using lb lt by (simp add: binary_Read_Values_def io_ReadFull_def)
  have ms: "makeslice_ok 1 (24 + 16 * ?n)" "makeslice_ok 16 ?N" "makeslice_ok 32 ?N"
    using small lt by (simp_all add: makeslice_ok_def)
  have fill: "\<And>mk. fill_perfValues mk (decode_Values ?N (take (16 * ?N) (drop 24 buf)))
                 (names grp) 0 (replicate ?N zero_PerfValue)
               = Panic (IndexOutOfRange ?N ?N)"
    using lt by (intro fill_perfValues_Panic) simp_all
  show ?thesis
    using rd hd vs ms by (simp add: getPerfValues_def Let_def fill)
qed

lemma getPerfValues_Err_count_above:
  assumes rd: "read_into_buf file (24 + 16 * length (names grp)) = (buf, None)"
    and hd: "binary_Read_GroupReadFormat (take 24 buf) = Inr h"
    and gt: "length (names grp) < unat (Nr h)"
    and small: "16 * unat (Nr h) \<le> maxAlloc" "24 + 16 * length (names grp) \<le> maxAlloc"
  shows "\<exists>e. getPerfValues impl file grp = Err (UnableToDecodeGroupValues (leaderName grp) e)"
proof -
  let ?n = "length (names grp)"
  let ?N = "unat (Nr h)"
  have lb: "length buf = 24 + 16 * ?n"
    using length_read_into_buf [of "file" "24 + 16 * ?n"] rd by simp
  have vs: "\<exists>e. binary_Read_Values ?N (drop 24 buf) = Inl e"
    using lb gt by (simp add: binary_Read_Values_def io_ReadFull_def)
  have ms: "makeslice_ok 1 (24 + 16 * ?n)" "makeslice_ok 16 ?N"
    using small gt by (simp_all add: makeslice_ok_def)
  show ?thesis
    using rd hd vs ms by (auto simp: getPerfValues_def Let_def)
qed

lemma getPerfValues_Err_read:
  assumes rd: "read_into_buf file (24 + 16 * length (names grp)) = (buf, Some e)"
    and small: "16 * length (names grp) + 24 \<le> maxAlloc"
  shows "getPerfValues impl file grp = Err (UnableToReadGroup (leaderName grp) e)"
  using assms by (simp add: getPerfValues_def Let_def makeslice_ok_def)

lemma UpdateStats_cpus_not_Err: "UpdateStats_cpus impl Read path grp fs acc \<noteq> Err e"
  by (induction impl Read path grp fs acc rule: UpdateStats_cpus.induct)
     (auto split: result.splits)

lemma UpdateStats_groups_not_Err: "UpdateStats_groups impl Read path gs acc \<noteq> Err e"
  by (induction impl Read path gs acc rule: UpdateStats_groups.induct)
     (auto split: result.splits simp: UpdateStats_cpus_not_Err)

lemma UpdateStats_returns_nil:
  "UpdateStats u impl Read c stats \<noteq> Err e"
  "UpdateStats u impl Read c stats = Ok (err, stats', lg) \<Longrightarrow> err = None"
  by (auto simp: UpdateStats_def Let_def UpdateStats_groups_not_Err split: prod.splits result.splits)

lemma le_nat_zeros [simp]: "le_nat (replicate n 0) = 0"
  by (induction n) auto

lemma replicate_numeral_Cons: "replicate (numeral k) x = x # replicate (pred_numeral k) x"
  by (simp add: numeral_eq_Suc)

lemma read_count_one_panics:
  "getPerfValues impl (file_of_bytes read_count_one) (ex_reading_group f0 f1)
   = Panic (IndexOutOfRange 1 1)"
proof -
  have rd: "read_into_buf (file_of_bytes read_count_one)
              (24 + 16 * length (names (ex_reading_group f0 f1))) = (read_count_one, None)"
    by (rule read_file_of_bytes) (simp add: read_count_one_def ex_reading_group_def)
  have hd: "binary_Read_GroupReadFormat (take 24 read_count_one)
            = Inr \<lparr>Nr = 1, TimeEnabled = 1000, TimeRunning = 1000\<rparr>"
    unfolding read_count_one_def by (rule header_of_group_read)
  from getPerfValues_Panic_count_below [OF rd hd, of impl]
  show ?thesis by (simp add: ex_reading_group_def maxAlloc_def)
qed

lemma read_two_ok:
  "getPerfValues impl (file_of_bytes read_two) (ex_reading_group f0 f1)
   = Ok [\<lparr>ScalingRatio = f64_one, Value = 100, Name = ''instructions''\<rparr>,
         \<lparr>ScalingRatio = f64_one, Value = 200, Name = ''cycles''\<rparr>]"
  unfolding read_two_def
  apply (subst getPerfValues_of_group_read)
     apply (simp_all add: ex_reading_group_def maxAlloc_def)
  apply (simp add: perfValue_of_def scalingRatio_of_def f64_one_def float64_of_uint64_def
      f64_round_def bitlen.simps round_even_def uint64_of_float64_def)
  done

lemma read_zeros_panics:
  "getPerfValues impl (file_of_bytes read_zeros) (ex_reading_group f0 f1)
   = Panic (IndexOutOfRange 0 0)"
proof -
  have rd: "read_into_buf (file_of_bytes read_zeros)
              (24 + 16 * length (names (ex_reading_group f0 f1))) = (read_zeros, None)"
    by (rule read_file_of_bytes) (simp add: read_zeros_def ex_reading_group_def)
  have hd: "binary_Read_GroupReadFormat (take 24 read_zeros)
            = Inr \<lparr>Nr = 0, TimeEnabled = 0, TimeRunning = 0\<rparr>"
    by (simp add: read_zeros_def binary_Read_GroupReadFormat_def io_ReadFull_def le_uint64_def)
  from getPerfValues_Panic_count_below [OF rd hd, of impl]
  show ?thesis by (simp add: ex_reading_group_def maxAlloc_def)
qed

lemma read_header_only_ok:
  "getPerfValues impl (file_of_bytes read_header_only) (ex_reading_group f0 f1)
   = Ok [\<lparr>ScalingRatio = f64_one, Value = 0, Name = ''instructions''\<rparr>,
         \<lparr>ScalingRatio = f64_one, Value = 0, Name = ''cycles''\<rparr>]"
proof -
  have "read_into_buf (file_of_bytes read_header_only) 56 = (enc_group_read \<lparr>Nr = 2, TimeEnabled = 1000, TimeRunning = 1000\<rparr>
       [\<lparr>Values.Value = 0, ID = 0\<rparr>, \<lparr>Values.Value = 0, ID = 0\<rparr>], None)"
    by (simp add: read_into_buf_def file_of_bytes_def read_header_only_def enc_group_read_def
          enc_uint64_def enc_le_numeral replicate_numeral_Cons)
  then have "getPerfValues impl (file_of_bytes read_header_only) (ex_reading_group f0 f1) =
     getPerfValues impl (file_of_bytes (enc_group_read \<lparr>Nr = 2, TimeEnabled = 1000, TimeRunning = 1000\<rparr>
       [\<lparr>Values.Value = 0, ID = 0\<rparr>, \<lparr>Values.Value = 0, ID = 0\<rparr>])) (ex_reading_group f0 f1)"
    by (simp add: getPerfValues_def ex_reading_group_def read_file_of_bytes)
  also have "\<dots> = Ok [\<lparr>ScalingRatio = f64_one, Value = 0, Name = ''instructions''\<rparr>,
         \<lparr>ScalingRatio = f64_one, Value = 0, Name = ''cycles''\<rparr>]"
    apply (subst getPerfValues_of_group_read)
       apply (simp_all add: ex_reading_group_def maxAlloc_def)
    apply (simp add: perfValue_of_def scalingRatio_of_def f64_one_def float64_of_uint64_def
      f64_round_def bitlen.simps round_even_def uint64_of_float64_def)
    done
  finally show ?thesis .
qed


lemma leader_files_ex [simp]: "leader_files (ex_reading_group f0 f1) = [(0, f0), (1, f1)]"
  by (simp add: leader_files_def ex_reading_group_def)

text \<open>
  Claim C3.  A decode mismatch or a short read on one CPU should be logged and skipped
  while the other CPUs still contribute, and the call should never abort.  The code
  handles a read error and a header count above the registered count in that way, but
  not the two inputs below.  When the file of CPU 0 delivers a complete read whose header
  counts one entry for the two registered events, \<open>UpdateStats\<close> panics (index out of
  range) and CPU 1 never contributes.  When the file of CPU 0 delivers the 24 bytes of
  the header only, with no error, the number of bytes read is ignored: no warning is
  logged and CPU 0 contributes two zero values.
\<close>

theorem UpdateStats_count_mismatch_panics:
  "UpdateStats u impl file_of_bytes (ex_reading_collector read_count_one read_two) stats
     = Panic (IndexOutOfRange 1 1)
   \<and> UpdateStats u impl file_of_bytes (ex_reading_collector read_header_only read_two) stats
     = Ok (None,
           (snd (u () stats))
             \<lparr>PerfStats :=
                [\<lparr>ScalingRatio = f64_one, Value = 0, Name = ''instructions'', Cpu = 0\<rparr>,
                 \<lparr>ScalingRatio = f64_one, Value = 0, Name = ''cycles'', Cpu = 0\<rparr>,
                 \<lparr>ScalingRatio = f64_one, Value = 100, Name = ''instructions'', Cpu = 1\<rparr>,
                 \<lparr>ScalingRatio = f64_one, Value = 200, Name = ''cycles'', Cpu = 1\<rparr>]\<rparr>,
           (case fst (u () stats) of None \<Rightarrow> [] | Some e \<Rightarrow> [FailedUncore e]))"
  by (simp add: UpdateStats_def ex_reading_collector_def readGroupPerfStat_def
        read_count_one_panics read_two_ok read_header_only_ok split: prod.splits)

text \<open>
  Claim C10.  \<open>UpdateStats\<close> should return \<open>nil\<close> whatever the group reads yield.  When
  the file of CPU 1 fills the buffer with zero bytes (a header that counts no entry),
  \<open>UpdateStats\<close> panics in \<open>getPerfValues\<close> and returns nothing, although the read of
  CPU 0 succeeded.  (When it does return, it returns \<open>nil\<close>: lemma
  \<open>UpdateStats_returns_nil\<close>.)
\<close>

theorem UpdateStats_does_not_return:
  "UpdateStats u impl file_of_bytes (ex_reading_collector read_two read_zeros) stats
     = Panic (IndexOutOfRange 0 0)"
  by (simp add: UpdateStats_def ex_reading_collector_def readGroupPerfStat_def
        read_zeros_panics read_two_ok split: prod.splits)

section \<open>Properties of setup\<close>

lemma addEventFile_frame [simp]:
  "eventToCustomEvent (addEventFile c i n cpu f) = eventToCustomEvent c"
  "onlineCPUs (addEventFile c i n cpu f) = onlineCPUs c"
  "cgroupPath (addEventFile c i n cpu f) = cgroupPath c"
  "collector.events (addEventFile c i n cpu f) = collector.events c"
  by (simp_all add: addEventFile_def Let_def)

lemma registerEvent_cpus_Ok:
  "registerEvent_cpus kern ev pid' flags leader lfd cpus c newL tr = (Ok newL', c', tr') \<Longrightarrow>
   \<exists>fds. length fds = length cpus \<and> list_all (\<lambda>d. 0 \<le> d) fds
     \<and> tr' = tr @ open_calls (config ev) pid' flags lfd cpus fds
     \<and> newL' = (if leader then fold (\<lambda>(cpu, d) m. AList.update cpu d m) (zip cpus fds) newL
                 else newL)
     \<and> eventToCustomEvent c' = eventToCustomEvent c \<and> onlineCPUs c' = onlineCPUs c"
proof (induction cpus arbitrary: c newL tr)
  case Nil
  then show ?case by (simp add: open_calls_def)
next
  case (Cons cpu cpus)
  let ?r = "unix_PerfEventOpen kern tr (config ev) pid' cpu (map_get lfd cpu) flags"
  from Cons.prems obtain d where r: "?r = Inr d" and d: "0 \<le> d"
    by (cases ?r) (auto simp: Let_def split: if_splits)
  let ?tr1 = "tr @ [PerfEventOpen (config ev) pid' cpu (map_get lfd cpu) flags (Inr d)]"
  let ?c1 = "addEventFile c (groupIndex ev) (eventInfo.name ev) cpu
               \<lparr>fd = d, os_File.name = eventInfo.name ev\<rparr>"
  let ?n1 = "if leader then AList.update cpu d newL else newL"
  from Cons.prems r d have
    rec: "registerEvent_cpus kern ev pid' flags leader lfd cpus ?c1 ?n1 ?tr1 = (Ok newL', c', tr')"
    by (simp add: Let_def)
  from Cons.IH [OF rec] obtain fds where
    f: "length fds = length cpus" "list_all (\<lambda>d. 0 \<le> d) fds"
       "tr' = ?tr1 @ open_calls (config ev) pid' flags lfd cpus fds"
       "newL' = (if leader then fold (\<lambda>(cpu, d) m. AList.update cpu d m) (zip cpus fds) ?n1 else ?n1)"
       "eventToCustomEvent c' = eventToCustomEvent ?c1" "onlineCPUs c' = onlineCPUs ?c1"
    by blast
  show ?case
    by (rule exI [of _ "d # fds"]) (use f d in \<open>simp add: open_calls_def\<close>)
qed

lemma update_fresh: "k \<notin> fst ` set al \<Longrightarrow> AList.update k v al = al @ [(k, v)]"
  by (induction al) auto

lemma fold_update_fresh:
  "distinct (map fst acc @ map fst kvs) \<Longrightarrow>
   fold (\<lambda>(k, v) m. AList.update k v m) kvs acc = acc @ kvs"
proof (induction kvs arbitrary: acc)
  case Nil
  then show ?case by simp
next
  case (Cons kv kvs)
  obtain k v where kv: "kv = (k, v)" by (cases kv)
  have fresh: "k \<notin> fst ` set acc" using Cons.prems kv by auto
  have "distinct (map fst (acc @ [(k, v)]) @ map fst kvs)" using Cons.prems kv by auto
  from Cons.IH [OF this] show ?case using kv fresh by (simp add: update_fresh)
qed

lemma new_leaderFileDescriptors_distinct:
  assumes "distinct cpus"
  shows "new_leaderFileDescriptors cpus = map (\<lambda>cpu. (cpu, groupLeaderFileDescriptor)) cpus"
proof -
  have "fold (\<lambda>cpu m. AList.update cpu groupLeaderFileDescriptor m) cpus []
        = fold (\<lambda>(k, v) m. AList.update k v m) (map (\<lambda>cpu. (cpu, groupLeaderFileDescriptor)) cpus) []"
    by (simp add: fold_map comp_def)
  also have "\<dots> = [] @ map (\<lambda>cpu. (cpu, groupLeaderFileDescriptor)) cpus"
    using assms by (intro fold_update_fresh) (simp add: comp_def)
  finally show ?thesis by (simp add: new_leaderFileDescriptors_def)
qed

lemma map_get_sentinel:
  "cpu \<in> set cpus \<Longrightarrow> map_get (map (\<lambda>cpu. (cpu, v)) cpus) cpu = v"
  by (induction cpus) (auto simp: map_get_def)

lemma map_get_zip_nonneg:
  "cpu \<in> set cpus \<Longrightarrow> length fds = length cpus \<Longrightarrow> list_all (\<lambda>d. 0 \<le> d) fds \<Longrightarrow>
   0 \<le> map_get (zip cpus fds) cpu"
proof (induction cpus arbitrary: fds)
  case Nil
  then show ?case by simp
next
  case (Cons a cpus)
  then obtain d ds where fds: "fds = d # ds" by (cases fds) auto
  show ?case
  proof (cases "a = cpu")
    case True
    then show ?thesis using Cons.prems fds by (simp add: map_get_def)
  next
    case False
    then have "map_get (zip (a # cpus) fds) cpu = map_get (zip cpus ds) cpu"
      by (simp add: fds map_get_def)
    then show ?thesis using Cons False fds by simp
  qed
qed

lemma registerEvent_leader_Ok:
  assumes ok: "registerEvent kern c ev lfd tr = (Ok lfd', c', tr')"
    and cpus: "distinct (onlineCPUs c)" "0 \<in> set (onlineCPUs c)"
    and lfd: "lfd = map (\<lambda>cpu. (cpu, groupLeaderFileDescriptor)) (onlineCPUs c)"
  shows "\<exists>fds. length fds = length (onlineCPUs c) \<and> list_all (\<lambda>d. 0 \<le> d) fds
     \<and> tr' = tr @ open_calls (config ev) (pid ev) (PERF_FLAG_FD_CLOEXEC + PERF_FLAG_PID_CGROUP)
                    lfd (onlineCPUs c) fds
     \<and> lfd' = zip (onlineCPUs c) fds
     \<and> eventToCustomEvent c' = eventToCustomEvent c \<and> onlineCPUs c' = onlineCPUs c"
proof -
  have g0: "map_get lfd 0 = groupLeaderFileDescriptor"
    using cpus(2) by (simp add: lfd map_get_sentinel)
  have len: "length lfd = length (onlineCPUs c)" by (simp add: lfd)
  from ok g0 len have
    "registerEvent_cpus kern ev (pid ev) (PERF_FLAG_FD_CLOEXEC + PERF_FLAG_PID_CGROUP) True
       lfd (onlineCPUs c) c [] tr = (Ok lfd', c', tr')"
    by (auto simp: registerEvent_def split: prod.splits result.splits)
  from registerEvent_cpus_Ok [OF this] obtain fds where
    f: "length fds = length (onlineCPUs c)" "list_all (\<lambda>d. 0 \<le> d) fds"
       "tr' = tr @ open_calls (config ev) (pid ev) (PERF_FLAG_FD_CLOEXEC + PERF_FLAG_PID_CGROUP)
                     lfd (onlineCPUs c) fds"
       "lfd' = fold (\<lambda>(cpu, d) m. AList.update cpu d m) (zip (onlineCPUs c) fds) []"
       "eventToCustomEvent c' = eventToCustomEvent c" "onlineCPUs c' = onlineCPUs c"
    by auto
  have "fold (\<lambda>(cpu, d) m. AList.update cpu d m) (zip (onlineCPUs c) fds) []
        = [] @ zip (onlineCPUs c) fds"
    using cpus(1) f(1) by (intro fold_update_fresh) simp
  then show ?thesis using f by auto
qed

lemma registerEvent_sibling_Ok:
  assumes ok: "registerEvent kern c ev lfd tr = (Ok lfd', c', tr')"
    and cpus: "0 \<in> set (onlineCPUs c)"
    and lfd: "lfd = zip (onlineCPUs c) lfds" "length lfds = length (onlineCPUs c)"
             "list_all (\<lambda>d. 0 \<le> d) lfds"
  shows "\<exists>fds. length fds = length (onlineCPUs c) \<and> list_all (\<lambda>d. 0 \<le> d) fds
     \<and> tr' = tr @ open_calls (config ev) (- 1) PERF_FLAG_FD_CLOEXEC lfd (onlineCPUs c) fds
     \<and> lfd' = lfd
     \<and> eventToCustomEvent c' = eventToCustomEvent c \<and> onlineCPUs c' = onlineCPUs c"
proof -
  have "0 \<le> map_get lfd 0"
    using map_get_zip_nonneg [OF cpus lfd(2,3)] by (simp add: lfd(1))
  then have g0: "map_get lfd 0 \<noteq> groupLeaderFileDescriptor"
    by (simp add: groupLeaderFileDescriptor_def)
  have len: "length lfd = length (onlineCPUs c)" by (simp add: lfd)
  from ok g0 len obtain newL where
    "registerEvent_cpus kern ev (- 1) PERF_FLAG_FD_CLOEXEC False
       lfd (onlineCPUs c) c [] tr = (Ok newL, c', tr')" and l: "lfd' = lfd"
    by (auto simp: registerEvent_def split: prod.splits result.splits)
  from registerEvent_cpus_Ok [OF this(1)] l show ?thesis by auto
qed

lemma createConfigFromRawEvent_Ok:
  "createConfigFromRawEvent K ce l = Ok cfg \<Longrightarrow> \<exists>a. cfg = setAttributes K a l"
  by (auto simp: createConfigFromRawEvent_def split: result.splits)

lemma createConfigFromEvent_Inr:
  "createConfigFromEvent K pfm e l = Inr cfg \<Longrightarrow> \<exists>a. cfg = setAttributes K a l"
  by (auto simp: createConfigFromEvent_def split: sum.splits)

lemma setup_events_Cons_Ok:
  assumes "setup_events K pfm kern cg i j (e # rest) lfd c tr = (Ok l, c', tr')"
  shows "\<exists>a nm lfd1 c1 tr1.
     registerEvent kern c \<lparr>name = nm, config = setAttributes K a (j = 0), pid = cg, groupIndex = i\<rparr>
       lfd tr = (Ok lfd1, c1, tr1)
     \<and> setup_events K pfm kern cg i (Suc j) rest lfd1 c1 tr1 = (Ok l, c', tr')"
proof (cases "map_of (eventToCustomEvent c) e")
  case None
  from assms None obtain cfg where c: "createConfigFromEvent K pfm e (j = 0) = Inr cfg"
    by (cases "createConfigFromEvent K pfm e (j = 0)") (auto simp: Let_def)
  from createConfigFromEvent_Inr [OF c] obtain a where a: "cfg = setAttributes K a (j = 0)" ..
  from assms None c a obtain lfd1 c1 tr1 where
    "registerEvent kern c \<lparr>name = e, config = setAttributes K a (j = 0), pid = cg, groupIndex = i\<rparr>
       lfd tr = (Ok lfd1, c1, tr1)"
    "setup_events K pfm kern cg i (Suc j) rest lfd1 c1 tr1 = (Ok l, c', tr')"
    by (auto simp: Let_def split: prod.splits result.splits)
  then show ?thesis by blast
next
  case (Some ce)
  from assms Some obtain cfg where c: "createConfigFromRawEvent K ce (j = 0) = Ok cfg"
    by (cases "createConfigFromRawEvent K ce (j = 0)") (auto simp: Let_def)
  from createConfigFromRawEvent_Ok [OF c] obtain a where a: "cfg = setAttributes K a (j = 0)" ..
  from assms Some c a obtain lfd1 c1 tr1 where
    "registerEvent kern c \<lparr>name = CustomEvent.Name ce, config = setAttributes K a (j = 0),
       pid = cg, groupIndex = i\<rparr> lfd tr = (Ok lfd1, c1, tr1)"
    "setup_events K pfm kern cg i (Suc j) rest lfd1 c1 tr1 = (Ok l, c', tr')"
    by (auto simp: Let_def split: prod.splits result.splits)
  then show ?thesis by blast
qed

lemma setup_events_siblings_Ok:
  assumes "setup_events K pfm kern cg i j es lfd c tr = (Ok l, c', tr')"
    and "0 < j" "0 \<in> set (onlineCPUs c)"
    and "lfd = zip (onlineCPUs c) lfds" "length lfds = length (onlineCPUs c)"
        "list_all (\<lambda>d. 0 \<le> d) lfds"
  shows "l = lfd \<and> onlineCPUs c' = onlineCPUs c
     \<and> (\<exists>afs. length afs = length es
           \<and> list_all (\<lambda>(a, fds). length fds = length (onlineCPUs c) \<and> list_all (\<lambda>d. 0 \<le> d) fds) afs
           \<and> tr' = tr @ sibling_calls K lfd (onlineCPUs c) afs)"
  using assms
proof (induction es arbitrary: j c tr)
  case Nil
  then show ?case by (auto simp: sibling_calls_def)
next
  case (Cons e es)
  from setup_events_Cons_Ok [OF Cons.prems(1)] obtain a nm lfd1 c1 tr1 where
    reg: "registerEvent kern c \<lparr>name = nm, config = setAttributes K a (j = 0), pid = cg,
            groupIndex = i\<rparr> lfd tr = (Ok lfd1, c1, tr1)"
    and rest: "setup_events K pfm kern cg i (Suc j) es lfd1 c1 tr1 = (Ok l, c', tr')"
    by blast
  from registerEvent_sibling_Ok [OF reg Cons.prems(3,4,5,6)] Cons.prems(2) obtain fds where
    f: "length fds = length (onlineCPUs c)" "list_all (\<lambda>d. 0 \<le> d) fds"
       "tr1 = tr @ open_calls (setAttributes K a False) (- 1) PERF_FLAG_FD_CLOEXEC lfd (onlineCPUs c) fds"
       "lfd1 = lfd" "onlineCPUs c1 = onlineCPUs c"
    by auto
  note rest' = rest [unfolded f(4)]
  have "l = lfd \<and> onlineCPUs c' = onlineCPUs c1
     \<and> (\<exists>afs. length afs = length es
           \<and> list_all (\<lambda>(a, fds). length fds = length (onlineCPUs c1) \<and> list_all (\<lambda>d. 0 \<le> d) fds) afs
           \<and> tr' = tr1 @ sibling_calls K lfd (onlineCPUs c1) afs)"
    using Cons.prems f by (intro Cons.IH [OF rest']) simp_all
  then obtain afs where
    g: "l = lfd" "onlineCPUs c' = onlineCPUs c" "length afs = length es"
       "list_all (\<lambda>(a, fds). length fds = length (onlineCPUs c) \<and> list_all (\<lambda>d. 0 \<le> d) fds) afs"
       "tr' = tr1 @ sibling_calls K lfd (onlineCPUs c) afs"
    using f by auto
  show ?case
    using g f by (intro conjI exI [of _ "(a, fds) # afs"]) (simp_all add: sibling_calls_def)
qed

lemma setup_events_group_Ok:
  assumes ok: "setup_events K pfm kern cg i 0 (e # es) (new_leaderFileDescriptors (onlineCPUs c)) c tr
               = (Ok l, c', tr')"
    and cpus: "distinct (onlineCPUs c)" "0 \<in> set (onlineCPUs c)"
  shows "\<exists>a lfds afs.
       length lfds = length (onlineCPUs c) \<and> list_all (\<lambda>d. 0 \<le> d) lfds
     \<and> length afs = length es
     \<and> list_all (\<lambda>(a, fds). length fds = length (onlineCPUs c) \<and> list_all (\<lambda>d. 0 \<le> d) fds) afs
     \<and> l = zip (onlineCPUs c) lfds \<and> onlineCPUs c' = onlineCPUs c
     \<and> tr' = tr @ open_calls (setAttributes K a True) cg (PERF_FLAG_FD_CLOEXEC + PERF_FLAG_PID_CGROUP)
                     (map (\<lambda>cpu. (cpu, groupLeaderFileDescriptor)) (onlineCPUs c)) (onlineCPUs c) lfds
              @ sibling_calls K (zip (onlineCPUs c) lfds) (onlineCPUs c) afs"
proof -
  let ?cpus = "onlineCPUs c"
  let ?lfd0 = "map (\<lambda>cpu. (cpu, groupLeaderFileDescriptor)) ?cpus"
  have l0: "new_leaderFileDescriptors ?cpus = ?lfd0"
    by (rule new_leaderFileDescriptors_distinct [OF cpus(1)])
  from setup_events_Cons_Ok [OF ok] obtain a nm lfd1 c1 tr1 where
    reg: "registerEvent kern c \<lparr>name = nm, config = setAttributes K a True, pid = cg,
            groupIndex = i\<rparr> ?lfd0 tr = (Ok lfd1, c1, tr1)"
    and rest: "setup_events K pfm kern cg i (Suc 0) es lfd1 c1 tr1 = (Ok l, c', tr')"
    by (auto simp: l0)
  from registerEvent_leader_Ok [OF reg cpus refl] obtain lfds where
    f: "length lfds = length ?cpus" "list_all (\<lambda>d. 0 \<le> d) lfds"
       "tr1 = tr @ open_calls (setAttributes K a True) cg (PERF_FLAG_FD_CLOEXEC + PERF_FLAG_PID_CGROUP)
                     ?lfd0 ?cpus lfds"
       "lfd1 = zip ?cpus lfds" "onlineCPUs c1 = ?cpus"
    by auto
  have "l = lfd1 \<and> onlineCPUs c' = onlineCPUs c1
     \<and> (\<exists>afs. length afs = length es
           \<and> list_all (\<lambda>(a, fds). length fds = length (onlineCPUs c1) \<and> list_all (\<lambda>d. 0 \<le> d) fds) afs
           \<and> tr' = tr1 @ sibling_calls K lfd1 (onlineCPUs c1) afs)"
    using f cpus by (intro setup_events_siblings_Ok [OF rest, of lfds]) simp_all
  then show ?thesis using f by auto
qed

lemma reset_and_enable_Ok:
  "reset_and_enable kern lfd tr = (Ok u, tr') \<Longrightarrow>
   tr' = tr @ concat (map (\<lambda>(cpu, d). [IoctlSetInt d PERF_EVENT_IOC_RESET 0 None,
                                         IoctlSetInt d PERF_EVENT_IOC_ENABLE 0 None]) lfd)"
proof (induction lfd arbitrary: tr)
  case Nil
  then show ?case by simp
next
  case (Cons p lfd)
  obtain cpu d where p: "p = (cpu, d)" by (cases p)
  let ?tr1 = "tr @ [IoctlSetInt d PERF_EVENT_IOC_RESET 0 None]"
  let ?tr2 = "?tr1 @ [IoctlSetInt d PERF_EVENT_IOC_ENABLE 0 None]"
  from Cons.prems p have r1: "unix_IoctlSetInt kern tr d PERF_EVENT_IOC_RESET 0 = None"
    by (auto simp: Let_def split: option.splits)
  from Cons.prems p r1 have r2: "unix_IoctlSetInt kern ?tr1 d PERF_EVENT_IOC_ENABLE 0 = None"
    by (auto simp: Let_def split: option.splits)
  from Cons.prems p r1 r2 have "reset_and_enable kern lfd ?tr2 = (Ok u, tr')"
    by (simp add: Let_def)
  from Cons.IH [OF this] show ?case by (simp add: p)
qed

lemma setup_groups_single_Ok:
  assumes ok: "setup_groups K pfm kern cg i [\<lparr>Group.events = e # es\<rparr>] c tr = (Ok u, c', tr')"
    and cpus: "distinct (onlineCPUs c)" "0 \<in> set (onlineCPUs c)"
  shows "\<exists>a lfds afs.
       length lfds = length (onlineCPUs c) \<and> list_all (\<lambda>d. 0 \<le> d) lfds
     \<and> length afs = length es
     \<and> list_all (\<lambda>(a, fds). length fds = length (onlineCPUs c) \<and> list_all (\<lambda>d. 0 \<le> d) fds) afs
     \<and> tr' = tr @ open_calls (setAttributes K a True) cg (PERF_FLAG_FD_CLOEXEC + PERF_FLAG_PID_CGROUP)
                     (map (\<lambda>cpu. (cpu, groupLeaderFileDescriptor)) (onlineCPUs c)) (onlineCPUs c) lfds
              @ sibling_calls K (zip (onlineCPUs c) lfds) (onlineCPUs c) afs
              @ enable_calls (zip (onlineCPUs c) lfds)"
proof -
  from ok obtain l c1 tr1 where
    ev: "setup_events K pfm kern cg (int i) 0 (e # es) (new_leaderFileDescriptors (onlineCPUs c)) c tr
         = (Ok l, c1, tr1)"
    and en: "reset_and_enable kern l tr1 = (Ok (), tr')"
    by (auto split: prod.splits result.splits)
  from setup_events_group_Ok [OF ev cpus] obtain a lfds afs where
    g: "length lfds = length (onlineCPUs c)" "list_all (\<lambda>d. 0 \<le> d) lfds"
       "length afs = length es"
       "list_all (\<lambda>(a, fds). length fds = length (onlineCPUs c) \<and> list_all (\<lambda>d. 0 \<le> d) fds) afs"
       "l = zip (onlineCPUs c) lfds"
       "tr1 = tr @ open_calls (setAttributes K a True) cg (PERF_FLAG_FD_CLOEXEC + PERF_FLAG_PID_CGROUP)
                     (map (\<lambda>cpu. (cpu, groupLeaderFileDescriptor)) (onlineCPUs c)) (onlineCPUs c) lfds
              @ sibling_calls K (zip (onlineCPUs c) lfds) (onlineCPUs c) afs"
    by blast
  from reset_and_enable_Ok [OF en] have "tr' = tr1 @ enable_calls l"
    by (simp add: enable_calls_def)
  with g show ?thesis by auto
qed

lemma collector_setup_single_Ok:
  assumes ok: "collector_setup K pfm kern c = (Ok u, c', tr)"
    and ev: "Events (Core (collector.events c)) = [\<lparr>Group.events = e # es\<rparr>]"
    and cpus: "distinct (onlineCPUs c)" "0 \<in> set (onlineCPUs c)"
  shows "\<exists>cg a lfds afs.
       length lfds = length (onlineCPUs c) \<and> list_all (\<lambda>d. 0 \<le> d) lfds
     \<and> length afs = length es
     \<and> list_all (\<lambda>(a, fds). length fds = length (onlineCPUs c) \<and> list_all (\<lambda>d. 0 \<le> d) fds) afs
     \<and> tr = OsOpen (cgroupPath c) (Inr cg)
              # open_calls (setAttributes K a True) cg (PERF_FLAG_FD_CLOEXEC + PERF_FLAG_PID_CGROUP)
                     (map (\<lambda>cpu. (cpu, groupLeaderFileDescriptor)) (onlineCPUs c)) (onlineCPUs c) lfds
              @ sibling_calls K (zip (onlineCPUs c) lfds) (onlineCPUs c) afs
              @ enable_calls (zip (onlineCPUs c) lfds)
              @ [OsClose cg]"
proof -
  from ok obtain cg where o: "os_Open kern [] (cgroupPath c) = Inr cg"
    by (cases "os_Open kern [] (cgroupPath c)") (auto simp: collector_setup_def Let_def)
  from ok o ev obtain tr1 where
    g: "setup_groups K pfm kern cg 0 [\<lparr>Group.events = e # es\<rparr>] c [OsOpen (cgroupPath c) (Inr cg)]
        = (Ok u, c', tr1)" and t: "tr = tr1 @ [OsClose cg]"
    by (auto simp: collector_setup_def Let_def split: prod.splits)
  from setup_groups_single_Ok [OF g cpus] t show ?thesis by auto
qed

lemma count_open_calls:
  "length fds = length cpus \<Longrightarrow> length (filter is_open (open_calls cfg p f lfd cpus fds)) = length cpus"
proof -
  assume len: "length fds = length cpus"
  have "filter is_open (open_calls cfg p f lfd cpus fds) = open_calls cfg p f lfd cpus fds"
    by (auto simp: open_calls_def filter_id_conv)
  then show ?thesis using len by (simp add: open_calls_def)
qed

lemma count_leader_open_calls_sentinel:
  "length fds = length cpus \<Longrightarrow>
   length (filter is_leader_open
     (open_calls cfg p f (map (\<lambda>cpu. (cpu, groupLeaderFileDescriptor)) cpus) cpus fds)) = length cpus"
proof -
  assume len: "length fds = length cpus"
  have "\<And>cpu d. (cpu, d) \<in> set (zip cpus fds) \<Longrightarrow>
          map_get (map (\<lambda>cpu. (cpu, groupLeaderFileDescriptor)) cpus) cpu = groupLeaderFileDescriptor"
    by (auto dest: set_zip_leftD intro: map_get_sentinel)
  then have "filter is_leader_open
     (open_calls cfg p f (map (\<lambda>cpu. (cpu, groupLeaderFileDescriptor)) cpus) cpus fds)
     = open_calls cfg p f (map (\<lambda>cpu. (cpu, groupLeaderFileDescriptor)) cpus) cpus fds"
    by (auto simp: open_calls_def filter_id_conv)
  then show ?thesis using len by (simp add: open_calls_def)
qed

lemma count_leader_open_calls_zip:
  assumes "length lfds = length cpus" "list_all (\<lambda>d. 0 \<le> d) lfds"
  shows "filter is_leader_open (open_calls cfg p f (zip cpus lfds) cpus fds) = []"
proof -
  have "\<And>cpu d. (cpu, d) \<in> set (zip cpus fds) \<Longrightarrow>
          map_get (zip cpus lfds) cpu \<noteq> groupLeaderFileDescriptor"
    using map_get_zip_nonneg [OF _ assms]
    by (fastforce dest: set_zip_leftD simp: groupLeaderFileDescriptor_def)
  then show ?thesis by (auto simp: open_calls_def filter_empty_conv)
qed

lemma count_sibling_calls:
  assumes "list_all (\<lambda>(a, fds). length fds = length cpus \<and> list_all (\<lambda>d. 0 \<le> d) fds) afs"
  shows "length (filter is_open (sibling_calls K lfd cpus afs)) = length afs * length cpus"
  using assms by (induction afs) (auto simp: sibling_calls_def count_open_calls)

lemma count_leader_sibling_calls:
  assumes "length lfds = length cpus" "list_all (\<lambda>d. 0 \<le> d) lfds"
  shows "filter is_leader_open (sibling_calls K (zip cpus lfds) cpus afs) = []"
  by (induction afs) (auto simp: sibling_calls_def count_leader_open_calls_zip [OF assms])

lemma no_open_in_enable_calls [simp]:
  "filter is_open (enable_calls lfd) = []" "filter is_leader_open (enable_calls lfd) = []"
  by (induction lfd) (auto simp: enable_calls_def)

lemma setup_one_group_counts:
  assumes ok: "collector_setup K pfm kern c = (Ok u, c', tr)"
    and ev: "Events (Core (collector.events c)) = [\<lparr>Group.events = e # es\<rparr>]"
    and cpus: "distinct (onlineCPUs c)" "0 \<in> set (onlineCPUs c)"
  shows "length (filter is_open tr) = length (e # es) * length (onlineCPUs c)
       \<and> length (filter is_leader_open tr) = length (onlineCPUs c)"
proof -
  from collector_setup_single_Ok [OF ok ev cpus] obtain cg a lfds afs where
    g: "length lfds = length (onlineCPUs c)" "list_all (\<lambda>d. 0 \<le> d) lfds"
       "length afs = length es"
       "list_all (\<lambda>(a, fds). length fds = length (onlineCPUs c) \<and> list_all (\<lambda>d. 0 \<le> d) fds) afs"
       "tr = OsOpen (cgroupPath c) (Inr cg)
              # open_calls (setAttributes K a True) cg (PERF_FLAG_FD_CLOEXEC + PERF_FLAG_PID_CGROUP)
                     (map (\<lambda>cpu. (cpu, groupLeaderFileDescriptor)) (onlineCPUs c)) (onlineCPUs c) lfds
              @ sibling_calls K (zip (onlineCPUs c) lfds) (onlineCPUs c) afs
              @ enable_calls (zip (onlineCPUs c) lfds)
              @ [OsClose cg]"
    by blast
  show ?thesis
    by (simp add: g(5) count_open_calls [OF g(1)] count_sibling_calls [OF g(4)] g(3)
          count_leader_open_calls_sentinel [OF g(1)] count_leader_sibling_calls [OF g(1,2)])
qed

lemmas setup_eval_defs =
  collector_setup_def newCollector_def mapEventsToCustomEvents_def one_group_def ex_collector_def
  ex_kernel_def new_leaderFileDescriptors_def createConfigFromEvent_def readPerfEventAttr_def
  PFM_SUCCESS_def registerEvent_def map_get_def groupLeaderFileDescriptor_def Let_def ex_pfm_def

text \<open>
  Claim C5.  For a group of three events and the online CPUs 0 and 1, a setup that
  succeeds opens exactly 6 descriptors, 2 of them as leaders; and a group read with the
  header (count 3, enabled 1000, running 500) and the raw values 100, 200, 300 yields the
  ratio 0.5 and the corrected values 200, 400, 600, each tagged with the ratio 0.5.
\<close>

theorem scenario_three_events_two_CPUs:
  assumes "collector_setup K pfm kern c = (Ok u, c', tr)"
    and "Events (Core (collector.events c)) = [\<lparr>Group.events = [e1, e2, e3]\<rparr>]"
    and "onlineCPUs c = [0, 1]"
  shows "length (filter is_open tr) = 6 \<and> length (filter is_leader_open tr) = 2
     \<and> getPerfValues impl (file_of_bytes (read_1000_500 i1 i2 i3))
          \<lparr>group.cpuFiles = fs, names = [n1, n2, n3], leaderName = n1\<rparr>
        = Ok [\<lparr>ScalingRatio = Fin (2 ^ 52) (- 53), Value = 200, Name = n1\<rparr>,
              \<lparr>ScalingRatio = Fin (2 ^ 52) (- 53), Value = 400, Name = n2\<rparr>,
              \<lparr>ScalingRatio = Fin (2 ^ 52) (- 53), Value = 600, Name = n3\<rparr>]
     \<and> f64_val (Fin (2 ^ 52) (- 53)) = 1 / 2"
proof -
  have "distinct (onlineCPUs c)" "0 \<in> set (onlineCPUs c)" using assms(3) by simp_all
  from setup_one_group_counts [OF assms(1,2) this] assms(3)
  show ?thesis by (simp add: getPerfValues_read_1000_500 f64_val_def)
qed

lemma ex_setup_three_Ok:
  "\<exists>c' tr. collector_setup ex_constants ex_pfm ex_kernel
             (ex_collector [''instructions'', ''cycles'', ''cache-misses''] [0, 1]) = (Ok (), c', tr)"
  by (simp add: setup_eval_defs)

theorem scenario_three_events_two_CPUs_witness:
  "(case collector_setup ex_constants ex_pfm ex_kernel
           (ex_collector [''instructions'', ''cycles'', ''cache-misses''] [0, 1]) of
      (r, c', tr) \<Rightarrow>
        r = Ok () \<and> length (filter is_open tr) = 6 \<and> length (filter is_leader_open tr) = 2)"
proof -
  from ex_setup_three_Ok obtain c' tr where
    ev: "collector_setup ex_constants ex_pfm ex_kernel
           (ex_collector [''instructions'', ''cycles'', ''cache-misses''] [0, 1]) = (Ok (), c', tr)"
    by blast
  have g: "Events (Core (collector.events
             (ex_collector [''instructions'', ''cycles'', ''cache-misses''] [0, 1])))
           = [\<lparr>Group.events = [''instructions'', ''cycles'', ''cache-misses'']\<rparr>]"
    and c: "onlineCPUs (ex_collector [''instructions'', ''cycles'', ''cache-misses''] [0, 1]) = [0, 1]"
    by (simp_all add: ex_collector_def newCollector_def mapEventsToCustomEvents_def one_group_def)
  note t = scenario_three_events_two_CPUs [OF ev g c]
  from t [THEN conjunct1] t [THEN conjunct2, THEN conjunct1] show ?thesis by (simp add: ev)
qed

text \<open>
  Claim C4.  Every event after the first of a group should be opened passing the leader
  descriptor of its CPU.  \<open>registerEvent\<close> recognises the first event by the entry of the
  leader map for CPU 0 (\<open>leaderFileDescriptors[0]\<close>); when CPU 0 is online this is what the
  claim says (lemma \<open>collector_setup_single_Ok\<close>).  When CPU 0 is not among the online
  CPUs, that entry is missing and reads as 0, no event is taken for the leader and no
  leader descriptor is recorded: with the online CPUs [1], the second event is opened
  passing \<open>-1\<close>, as a group of its own, the first event is opened without the cgroup
  scope, and setup ends with the failure of the reset on descriptor \<open>-1\<close>.
\<close>

theorem setup_without_CPU_0_opens_no_sibling:
  "fst (collector_setup ex_constants ex_pfm ex_kernel
          (ex_collector [''instructions'', ''cycles''] [1])) = Err (Errno 9)
   \<and> snd (snd (collector_setup ex_constants ex_pfm ex_kernel
          (ex_collector [''instructions'', ''cycles''] [1])))
     = [OsOpen ''/sys/fs/cgroup/perf_event/c1'' (Inr 3),
        PerfEventOpen
          (setAttributes ex_constants (zero_PerfEventAttr\<lparr>PerfEventAttr.Config := 192\<rparr>) True)
          (- 1) 1 (- 1) PERF_FLAG_FD_CLOEXEC (Inr 4),
        PerfEventOpen
          (setAttributes ex_constants (zero_PerfEventAttr\<lparr>PerfEventAttr.Config := 60\<rparr>) False)
          (- 1) 1 (- 1) PERF_FLAG_FD_CLOEXEC (Inr 5),
        IoctlSetInt (- 1) PERF_EVENT_IOC_RESET 0 (Some (Errno 9)),
        OsClose 3]"
  by (simp add: setup_eval_defs)

lemma setAttributes_disabled_iff:
  assumes "perfAttrBitsInherit K AND PerfBitDisabled = 0"
    and "perfAttrBitsExcludeGuest K AND PerfBitDisabled = 0"
  shows "(Bits (setAttributes K a leader) AND PerfBitDisabled = PerfBitDisabled) = leader"
  using assms
  by (simp add: setAttributes_def Let_def PerfBitDisabled_def bit.conj_disj_distrib2)

text \<open>
  Claim C6.  Only the configuration of the leader sets the counting-disabled bit (lemma
  \<open>setAttributes_disabled_iff\<close>), and the control operations of a group follow all its
  opens (lemma \<open>collector_setup_single_Ok\<close>); the reset and the enable should then go to
  the leader descriptor of each CPU, so that nothing counts before the group is complete.
  With the online CPUs [2, 3] (CPU 0 not online) the only control operation is a reset on
  \<open>-1\<close>, which fails; no leader descriptor is reset or enabled, and the second event, whose
  configuration does not set the disabled bit, is opened as a group of its own on each CPU
  and counts from the moment it is opened.
\<close>

theorem setup_without_CPU_0_enables_no_leader:
  "filter is_ioctl (snd (snd (collector_setup ex_constants ex_pfm ex_kernel
          (ex_collector [''instructions'', ''cycles''] [2, 3]))))
     = [IoctlSetInt (- 1) PERF_EVENT_IOC_RESET 0 (Some (Errno 9))]
   \<and> filter is_open (snd (snd (collector_setup ex_constants ex_pfm ex_kernel
          (ex_collector [''instructions'', ''cycles''] [2, 3]))))
     = [PerfEventOpen
          (setAttributes ex_constants (zero_PerfEventAttr\<lparr>PerfEventAttr.Config := 192\<rparr>) True)
          (- 1) 2 (- 1) PERF_FLAG_FD_CLOEXEC (Inr 4),
        PerfEventOpen
          (setAttributes ex_constants (zero_PerfEventAttr\<lparr>PerfEventAttr.Config := 192\<rparr>) True)
          (- 1) 3 (- 1) PERF_FLAG_FD_CLOEXEC (Inr 5),
        PerfEventOpen
          (setAttributes ex_constants (zero_PerfEventAttr\<lparr>PerfEventAttr.Config := 60\<rparr>) False)
          (- 1) 2 (- 1) PERF_FLAG_FD_CLOEXEC (Inr 6),
        PerfEventOpen
          (setAttributes ex_constants (zero_PerfEventAttr\<lparr>PerfEventAttr.Config := 60\<rparr>) False)
          (- 1) 3 (- 1) PERF_FLAG_FD_CLOEXEC (Inr 7)]
   \<and> Bits (setAttributes ex_constants (zero_PerfEventAttr\<lparr>PerfEventAttr.Config := 60\<rparr>) False)
       AND PerfBitDisabled = 0"
  by (simp add: setup_eval_defs setAttributes_def ex_constants_def PerfBitDisabled_def
        zero_PerfEventAttr_def)

section \<open>Properties of setup: failures and the descriptor map\<close>







lemma outcome_ok_Nil [simp]:
  "outcome_ok P (Ok x) []" "outcome_ok P (Panic p) []" "outcome_ok P (Err e) [] = P e"
  by (simp_all add: outcome_ok_def)















lemma opened_fds_append [simp]: "opened_fds (tr @ new) = opened_fds tr @ opened_fds new"
  by (simp add: opened_fds_def)

lemma opened_fds_Nil [simp]: "opened_fds [] = []"
  by (simp add: opened_fds_def)

lemma opened_fds_Cons [simp]: "opened_fds (s # tr) = opened_fd s @ opened_fds tr"
  by (simp add: opened_fds_def)








subsection \<open>An event that the resolver does not know\<close>








subsection \<open>Online CPUs listed twice\<close>









lemma newCollector_fields [simp]:
  "onlineCPUs (newCollector u path evs cpus) = cpus"
  "cgroupPath (newCollector u path evs cpus) = path"
  "collector.events (newCollector u path evs cpus) = evs"
  "collector.cpuFiles (newCollector u path evs cpus) = []"
  by (simp_all add: newCollector_def mapEventsToCustomEvents_def)




subsection \<open>Failures of setup\<close>




section \<open>Properties of the resctrl collector\<close>

text \<open>
  Claim C8.  A resctrl collector constructed with the root container identifier derives no
  pid-source path and performs no operation on the filesystem (no monitoring group is
  provisioned, no pid is enumerated or assigned); \<open>Destroy\<close> on that collector performs no
  operation on the filesystem either, whatever the environment does.
\<close>

theorem resctrl_root_no_filesystem_operation:
  "resctrl_newCollector env rootContainerID =
     (Inr \<lparr>resctrl = \<lparr>Id = rootContainerID, Type = CTRL_MON\<rparr>, pidsPath = []\<rparr>, [])
   \<and> resctrl_Destroy env \<lparr>resctrl = \<lparr>Id = rootContainerID, Type = CTRL_MON\<rparr>, pidsPath = []\<rparr>
       = ([], [])"
  by (simp add: resctrl_newCollector_def resctrl_Destroy_def)

section \<open>Properties of the initialisation and termination of the resolver\<close>

lemma libpfm_run_invariant:
  "terminations s + (if isLibpfmInitialized s then 1 else 0) \<le> initialisations s \<Longrightarrow>
   terminations (libpfm_run steps s) + (if isLibpfmInitialized (libpfm_run steps s) then 1 else 0)
     \<le> initialisations (libpfm_run steps s)"
proof (induction steps arbitrary: s)
  case Nil
  then show ?case by simp
next
  case (Cons a steps)
  show ?case
  proof (cases a)
    case (Init pErr)
    have "terminations (init pErr s) + (if isLibpfmInitialized (init pErr s) then 1 else 0)
          \<le> initialisations (init pErr s)"
      using Cons.prems
      by (auto simp: init_def terminations_def initialisations_def Let_def split: if_splits)
    from Cons.IH [OF this] show ?thesis using Init by simp
  next
    case Finalize_step
    have "terminations (Finalize s) + (if isLibpfmInitialized (Finalize s) then 1 else 0)
          \<le> initialisations (Finalize s)"
      using Cons.prems
      by (auto simp: Finalize_def terminations_def initialisations_def split: if_splits)
    from Cons.IH [OF this] show ?thesis using Finalize_step by simp
  qed
qed

text \<open>
  Claim C9.  \<open>Finalize\<close> is idempotent; it changes nothing (no call to the library) when the
  library is not initialised, which is the case when initialisation never succeeded and
  when a termination has already completed; the flag is false after \<open>Finalize\<close>; and after
  every sequence of \<open>init\<close> and \<open>Finalize\<close> calls that starts with the program, the number
  of calls to \<open>pfm_terminate\<close> is at most the number of successful initialisations.
\<close>

theorem Finalize_idempotent:
  "Finalize (Finalize s) = Finalize s
   \<and> (\<not> isLibpfmInitialized s \<longrightarrow> Finalize s = s)
   \<and> \<not> isLibpfmInitialized (Finalize s)
   \<and> terminations (libpfm_run steps libpfm_start)
       \<le> initialisations (libpfm_run steps libpfm_start)"
proof -
  have "terminations libpfm_start + (if isLibpfmInitialized libpfm_start then 1 else 0)
        \<le> initialisations libpfm_start"
    by (simp add: libpfm_start_def terminations_def initialisations_def)
  from libpfm_run_invariant [OF this, of steps]
  have "terminations (libpfm_run steps libpfm_start)
        \<le> initialisations (libpfm_run steps libpfm_start)"
    by (simp split: if_splits)
  then show ?thesis by (simp add: Finalize_def)
qed

theorem Finalize_idempotent_witness:
  "\<not> isLibpfmInitialized libpfm_start
   \<and> Finalize libpfm_start = libpfm_start
   \<and> terminations (libpfm_run [Init 0, Finalize_step, Finalize_step, Init (- 1), Finalize_step]
                       libpfm_start) = 1
   \<and> initialisations (libpfm_run [Init 0, Finalize_step, Finalize_step, Init (- 1), Finalize_step]
                         libpfm_start) = 1"
  using Finalize_idempotent
          [of libpfm_start "[Init 0, Finalize_step, Finalize_step, Init (- 1), Finalize_step]"]
  by (simp add: libpfm_start_def Finalize_def init_def terminations_def initialisations_def
        PFM_SUCCESS_def)

end
